theory Spec2Isabelle
  imports Complex_Main
begin

section \<open>Complex arithmetic (js/complex.js)\<close>

text \<open>
  JavaScript numbers are modelled as mathematical reals: every operation of the
  source is kept, rounding is not modelled, except for \<open>mul\<close>, \<open>div\<close> and \<open>equals\<close>
  in the subsection on binary64 arithmetic below, where the rounding after every
  operation is written out.  A thrown \<open>Error\<close> is a value of type \<open>error\<close>,
  returned on the left of a sum.
\<close>

datatype error =
    DivisionByZero
  | ZeroVector
  | DimensionMismatch
  | InvalidQubitCount
  | StateIndexOutOfRange
  | QubitIndexOutOfRange
  | InvalidQubitPair
  | InvalidAlgorithmParameter

datatype Complex_num = Cnum (re: real) (im: real)

definition Complex_ZERO :: Complex_num where
  "Complex_ZERO = Cnum 0 0"

definition Complex_ONE :: Complex_num where
  "Complex_ONE = Cnum 1 0"

definition Complex_add :: "Complex_num \<Rightarrow> Complex_num \<Rightarrow> Complex_num" where
  "Complex_add this other = Cnum (re this + re other) (im this + im other)"

definition Complex_sub :: "Complex_num \<Rightarrow> Complex_num \<Rightarrow> Complex_num" where
  "Complex_sub this other = Cnum (re this - re other) (im this - im other)"

definition Complex_mul :: "Complex_num \<Rightarrow> Complex_num \<Rightarrow> Complex_num" where
  "Complex_mul this other =
     Cnum (re this * re other - im this * im other)
          (re this * im other + im this * re other)"

definition Complex_abs :: "Complex_num \<Rightarrow> real" where
  "Complex_abs this = sqrt (re this * re this + im this * im this)"

definition Complex_conj :: "Complex_num \<Rightarrow> Complex_num" where
  "Complex_conj this = Cnum (re this) (- im this)"

subsection \<open>\<open>mul\<close>, \<open>div\<close> and \<open>equals\<close> in binary64 arithmetic\<close>

text \<open>
  Whether \<open>a.mul(b).div(b)\<close> returns, and how far its value is from \<open>a\<close>, is decided by
  rounding.  Here the three methods are written as they run on binary64 numbers: every
  arithmetic operation is the exact one followed by the rounding \<open>fl\<close> to a
  representable number, and a decimal literal stands for the rounding of its value
  (\<open>1e-15\<close> is not representable).  \<open>Math.abs\<close> and the comparisons are exact.  The
  rounding function is a parameter; \<open>Complex_mul\<close> above is \<open>Complex_mul_fl\<close> with
  the identity for \<open>fl\<close>.
\<close>

definition Complex_mul_fl :: "(real \<Rightarrow> real) \<Rightarrow> Complex_num \<Rightarrow> Complex_num \<Rightarrow> Complex_num" where
  "Complex_mul_fl fl this other =
     Cnum (fl (fl (re this * re other) - fl (im this * im other)))
          (fl (fl (re this * im other) + fl (im this * re other)))"

definition Complex_div_fl ::
  "(real \<Rightarrow> real) \<Rightarrow> Complex_num \<Rightarrow> Complex_num \<Rightarrow> error + Complex_num" where
  "Complex_div_fl fl this other =
     (let denominator = fl (fl (re other * re other) + fl (im other * im other))
      in if \<bar>denominator\<bar> < fl (1 / 10 ^ 15) then Inl DivisionByZero
         else Inr (Cnum (fl (fl (fl (re this * re other) + fl (im this * im other)) / denominator))
                        (fl (fl (fl (im this * re other) - fl (re this * im other)) / denominator))))"

definition Complex_equals_fl ::
  "(real \<Rightarrow> real) \<Rightarrow> Complex_num \<Rightarrow> Complex_num \<Rightarrow> real \<Rightarrow> bool" where
  "Complex_equals_fl fl this other eps \<longleftrightarrow>
     \<bar>fl (re this - re other)\<bar> < eps \<and> \<bar>fl (im this - im other)\<bar> < eps"

text \<open>Running a fallible step and continuing on success: the model of a statement
  sequence in which any statement may throw.\<close>

definition bind_e :: "error + 'a \<Rightarrow> ('a \<Rightarrow> error + 'b) \<Rightarrow> error + 'b" where
  "bind_e m f = (case m of Inl e \<Rightarrow> Inl e | Inr x \<Rightarrow> f x)"

fun foldM_e :: "('s \<Rightarrow> 'a \<Rightarrow> error + 's) \<Rightarrow> 's \<Rightarrow> 'a list \<Rightarrow> error + 's" where
  "foldM_e f s [] = Inr s"
| "foldM_e f s (x # xs) = (case f s x of Inl e \<Rightarrow> Inl e | Inr s' \<Rightarrow> foldM_e f s' xs)"

subsection \<open>ComplexUtils\<close>

definition ComplexUtils_isNormalized :: "Complex_num list \<Rightarrow> real \<Rightarrow> bool" where
  "ComplexUtils_isNormalized amplitudes eps \<longleftrightarrow>
     \<bar>foldl (\<lambda>acc amp. acc + Complex_abs amp * Complex_abs amp) 0 amplitudes - 1\<bar> < eps"

definition ComplexUtils_normalize :: "Complex_num list \<Rightarrow> error + Complex_num list" where
  "ComplexUtils_normalize amplitudes =
     (let norm = sqrt (foldl (\<lambda>acc amp. acc + Complex_abs amp * Complex_abs amp) 0 amplitudes)
      in if norm < 1 / 10 ^ 15 then Inl ZeroVector
         else Inr (map (\<lambda>amp. Cnum (re amp / norm) (im amp / norm)) amplitudes))"

definition ComplexUtils_dot :: "Complex_num list \<Rightarrow> Complex_num list \<Rightarrow> error + Complex_num" where
  "ComplexUtils_dot vec1 vec2 =
     (if length vec1 \<noteq> length vec2 then Inl DimensionMismatch
      else Inr (foldl (\<lambda>result i. Complex_add result
                                  (Complex_mul (Complex_conj (vec1 ! i)) (vec2 ! i)))
                      Complex_ZERO [0..<length vec1]))"

definition ComplexUtils_tensorProduct ::
  "Complex_num list \<Rightarrow> Complex_num list \<Rightarrow> Complex_num list" where
  "ComplexUtils_tensorProduct vec1 vec2 =
     concat (map (\<lambda>a. map (\<lambda>b. Complex_mul a b) vec2) vec1)"

section \<open>Single-qubit state (js/quantum-state.js)\<close>

record QuantumState =
  alpha :: Complex_num
  beta :: Complex_num

definition QuantumState_normalize :: "QuantumState \<Rightarrow> QuantumState" where
  "QuantumState_normalize this =
     (let norm = sqrt (Complex_abs (alpha this) * Complex_abs (alpha this) +
                       Complex_abs (beta this) * Complex_abs (beta this))
      in if norm < 1 / 10 ^ 15 then \<lparr>alpha = Cnum 1 0, beta = Cnum 0 0\<rparr>
         else \<lparr>alpha = Cnum (re (alpha this) / norm) (im (alpha this) / norm),
               beta = Cnum (re (beta this) / norm) (im (beta this) / norm)\<rparr>)"

definition QuantumState_new :: "Complex_num \<Rightarrow> Complex_num \<Rightarrow> QuantumState" where
  "QuantumState_new a b = QuantumState_normalize \<lparr>alpha = a, beta = b\<rparr>"

definition QuantumState_zero :: QuantumState where
  "QuantumState_zero = QuantumState_new (Cnum 1 0) (Cnum 0 0)"

definition QuantumState_plus :: QuantumState where
  "QuantumState_plus = (let amp = Cnum (1 / sqrt 2) 0 in QuantumState_new amp amp)"

section \<open>Gate catalogue (js/quantum-gates.js)\<close>

record QuantumMatrix =
  elements :: "Complex_num list list"
  rows :: nat
  cols :: nat

definition QuantumMatrix_new :: "Complex_num list list \<Rightarrow> QuantumMatrix" where
  "QuantumMatrix_new els =
     \<lparr>elements = els, rows = length els,
      cols = (case els of [] \<Rightarrow> 0 | r # _ \<Rightarrow> length r)\<rparr>"

definition QuantumMatrix_apply :: "QuantumMatrix \<Rightarrow> Complex_num list \<Rightarrow> error + Complex_num list" where
  "QuantumMatrix_apply this vector =
     (if cols this \<noteq> length vector then Inl DimensionMismatch
      else Inr (map (\<lambda>i. foldl (\<lambda>sum j. Complex_add sum
                                   (Complex_mul (elements this ! i ! j) (vector ! j)))
                             Complex_ZERO [0..<cols this])
                    [0..<rows this]))"

definition QuantumMatrix_tensorProduct :: "QuantumMatrix \<Rightarrow> QuantumMatrix \<Rightarrow> QuantumMatrix" where
  "QuantumMatrix_tensorProduct this other =
     QuantumMatrix_new
       (concat (map (\<lambda>i. map (\<lambda>k. concat (map (\<lambda>j. map (\<lambda>l.
                        Complex_mul (elements this ! i ! j) (elements other ! k ! l))
                      [0..<cols other]) [0..<cols this]))
                 [0..<rows other]) [0..<rows this]))"

definition QuantumGates_I :: QuantumMatrix where
  "QuantumGates_I = QuantumMatrix_new
     [[Complex_ONE, Complex_ZERO],
      [Complex_ZERO, Complex_ONE]]"

definition QuantumGates_X :: QuantumMatrix where
  "QuantumGates_X = QuantumMatrix_new
     [[Complex_ZERO, Complex_ONE],
      [Complex_ONE, Complex_ZERO]]"

definition QuantumGates_Z :: QuantumMatrix where
  "QuantumGates_Z = QuantumMatrix_new
     [[Complex_ONE, Complex_ZERO],
      [Complex_ZERO, Cnum (- 1) 0]]"

definition QuantumGates_H :: QuantumMatrix where
  "QuantumGates_H =
     (let invSqrt2 = Cnum (1 / sqrt 2) 0; negInvSqrt2 = Cnum (- 1 / sqrt 2) 0
      in QuantumMatrix_new
           [[invSqrt2, invSqrt2],
            [invSqrt2, negInvSqrt2]])"

definition QuantumGates_CNOT :: QuantumMatrix where
  "QuantumGates_CNOT = QuantumMatrix_new
     [[Complex_ONE, Complex_ZERO, Complex_ZERO, Complex_ZERO],
      [Complex_ZERO, Complex_ONE, Complex_ZERO, Complex_ZERO],
      [Complex_ZERO, Complex_ZERO, Complex_ZERO, Complex_ONE],
      [Complex_ZERO, Complex_ZERO, Complex_ONE, Complex_ZERO]]"

text \<open>
  \<open>QuantumGates.applyTwoQubitGate\<close>: the shortcut that multiplies the tensor product
  of two single-qubit states by a 4x4 matrix and then rebuilds two single-qubit states
  from sums of magnitudes.
\<close>

definition QuantumGates_applyTwoQubitGate ::
  "QuantumState \<Rightarrow> QuantumState \<Rightarrow> QuantumMatrix \<Rightarrow> error + QuantumState \<times> QuantumState" where
  "QuantumGates_applyTwoQubitGate state1 state2 gate =
     (let vector = [Complex_mul (alpha state1) (alpha state2),
                    Complex_mul (alpha state1) (beta state2),
                    Complex_mul (beta state1) (alpha state2),
                    Complex_mul (beta state1) (beta state2)]
      in bind_e (QuantumMatrix_apply gate vector) (\<lambda>result.
           let newState1 = QuantumState_new
                 (Cnum ((Complex_abs (result ! 0) + Complex_abs (result ! 1)) / sqrt 2) 0)
                 (Cnum ((Complex_abs (result ! 2) + Complex_abs (result ! 3)) / sqrt 2) 0);
               newState2 = QuantumState_new
                 (Cnum ((Complex_abs (result ! 0) + Complex_abs (result ! 2)) / sqrt 2) 0)
                 (Cnum ((Complex_abs (result ! 1) + Complex_abs (result ! 3)) / sqrt 2) 0)
           in Inr (newState1, newState2)))"

section \<open>Quantum register (js/quantum-register.js)\<close>

text \<open>
  Basis-state indices and qubit numbers that a caller passes in are integers (the source
  tests them against 0); inside a loop they are naturals below \<open>2 ^ 20\<close>, where
  JavaScript's 32-bit \<open>>>\<close>, \<open>&\<close>, \<open>^\<close>, \<open><<\<close> agree with the unbounded bit
  operations.  \<open>x & ~(1 << q)\<close> clears bit \<open>q\<close>: \<open>unset_bit q x\<close>.

  A method that throws returns \<open>Inl\<close>; every throw of the register precedes the first
  write to \<open>this.amplitudes\<close>, so on \<open>Inl\<close> the register the caller holds is the one
  it passed in.
\<close>

record QuantumRegister =
  numQubits :: nat
  dimension :: nat
  amplitudes :: "Complex_num list"

text \<open>\<open>initialize\<close> overwrites every slot below \<open>dimension\<close> with zero and then slot 0
  with one, whatever the array held before.\<close>

definition QuantumRegister_initialize :: "QuantumRegister \<Rightarrow> QuantumRegister" where
  "QuantumRegister_initialize this =
     this\<lparr>amplitudes := (replicate (dimension this) Complex_ZERO)[0 := Complex_ONE]\<rparr>"

definition QuantumRegister_new :: "int \<Rightarrow> error + QuantumRegister" where
  "QuantumRegister_new n =
     (if n < 1 \<or> n > 20 then Inl InvalidQubitCount
      else Inr (QuantumRegister_initialize
                  \<lparr>numQubits = nat n, dimension = 2 ^ nat n, amplitudes = []\<rparr>))"

text \<open>\<open>normalize\<close> catches the error of \<open>ComplexUtils.normalize\<close> and resets the
  register to \<open>|0\<dots>0\<rangle>\<close>.\<close>

definition QuantumRegister_normalize :: "QuantumRegister \<Rightarrow> QuantumRegister" where
  "QuantumRegister_normalize this =
     (case ComplexUtils_normalize (amplitudes this) of
        Inr normalized \<Rightarrow> this\<lparr>amplitudes := normalized\<rparr>
      | Inl _ \<Rightarrow> QuantumRegister_initialize this)"

definition getAmplitude :: "QuantumRegister \<Rightarrow> int \<Rightarrow> error + Complex_num" where
  "getAmplitude this basisState =
     (if basisState < 0 \<or> basisState \<ge> int (dimension this) then Inl StateIndexOutOfRange
      else Inr (amplitudes this ! nat basisState))"

definition setAmplitude :: "QuantumRegister \<Rightarrow> int \<Rightarrow> Complex_num \<Rightarrow> error + QuantumRegister" where
  "setAmplitude this basisState amplitude =
     (if basisState < 0 \<or> basisState \<ge> int (dimension this) then Inl StateIndexOutOfRange
      else Inr (this\<lparr>amplitudes := (amplitudes this)[nat basisState := amplitude]\<rparr>))"

definition getProbability :: "QuantumRegister \<Rightarrow> int \<Rightarrow> error + real" where
  "getProbability this basisState =
     bind_e (getAmplitude this basisState)
       (\<lambda>amplitude. Inr (Complex_abs amplitude * Complex_abs amplitude))"

definition getAllProbabilities :: "QuantumRegister \<Rightarrow> real list" where
  "getAllProbabilities this =
     map (\<lambda>amp. let a = Complex_abs amp in a * a) (amplitudes this)"

definition isNormalized :: "QuantumRegister \<Rightarrow> real \<Rightarrow> bool" where
  "isNormalized this eps = ComplexUtils_isNormalized (amplitudes this) eps"

text \<open>One pass of the loop body of \<open>applySingleQubitGate\<close> for basis index \<open>state\<close>:
  two accumulating writes into \<open>newAmplitudes\<close>.\<close>

definition applySingleQubitGate_step ::
  "QuantumMatrix \<Rightarrow> nat \<Rightarrow> Complex_num list \<Rightarrow> Complex_num list \<Rightarrow> nat \<Rightarrow> Complex_num list" where
  "applySingleQubitGate_step gate targetQubit old newAmplitudes state =
     (let bit = and (drop_bit targetQubit state) 1;
          flippedState = xor state (push_bit targetQubit 1)
      in if bit = 0 then
           let n1 = newAmplitudes[state := Complex_add (newAmplitudes ! state)
                      (Complex_mul (elements gate ! 0 ! 0) (old ! state))]
           in n1[flippedState := Complex_add (n1 ! flippedState)
                      (Complex_mul (elements gate ! 1 ! 0) (old ! state))]
         else
           let n1 = newAmplitudes[state := Complex_add (newAmplitudes ! state)
                      (Complex_mul (elements gate ! 1 ! 1) (old ! state))]
           in n1[flippedState := Complex_add (n1 ! flippedState)
                      (Complex_mul (elements gate ! 0 ! 1) (old ! state))])"

definition applySingleQubitGate ::
  "QuantumRegister \<Rightarrow> QuantumMatrix \<Rightarrow> int \<Rightarrow> error + QuantumRegister" where
  "applySingleQubitGate this gate targetQubit =
     (if targetQubit < 0 \<or> targetQubit \<ge> int (numQubits this) then Inl QubitIndexOutOfRange
      else Inr (this\<lparr>amplitudes :=
                  foldl (applySingleQubitGate_step gate (nat targetQubit) (amplitudes this))
                        (replicate (dimension this) Complex_ZERO)
                        [0..<dimension this]\<rparr>))"

text \<open>The inner loop of \<open>applyTwoQubitGate\<close> over the four output sub-indices.\<close>

definition applyTwoQubitGate_out ::
  "QuantumMatrix \<Rightarrow> nat \<Rightarrow> nat \<Rightarrow> Complex_num list \<Rightarrow> nat \<Rightarrow> nat \<Rightarrow>
   Complex_num list \<Rightarrow> nat \<Rightarrow> Complex_num list" where
  "applyTwoQubitGate_out gate controlQubit targetQubit old state inputState newAmplitudes outputState =
     (let newControlBit = outputState div 2;
          newTargetBit = outputState mod 2;
          newState1 = or (unset_bit controlQubit state) (push_bit controlQubit newControlBit);
          newState = or (unset_bit targetQubit newState1) (push_bit targetQubit newTargetBit);
          matrixElement = elements gate ! outputState ! inputState
      in newAmplitudes[newState := Complex_add (newAmplitudes ! newState)
                                     (Complex_mul matrixElement (old ! state))])"

definition applyTwoQubitGate_step ::
  "QuantumMatrix \<Rightarrow> nat \<Rightarrow> nat \<Rightarrow> Complex_num list \<Rightarrow> Complex_num list \<Rightarrow> nat \<Rightarrow> Complex_num list" where
  "applyTwoQubitGate_step gate controlQubit targetQubit old newAmplitudes state =
     (let controlBit = and (drop_bit controlQubit state) 1;
          targetBit = and (drop_bit targetQubit state) 1;
          inputState = controlBit * 2 + targetBit
      in foldl (applyTwoQubitGate_out gate controlQubit targetQubit old state inputState)
               newAmplitudes [0..<4])"

definition applyTwoQubitGate ::
  "QuantumRegister \<Rightarrow> QuantumMatrix \<Rightarrow> int \<Rightarrow> int \<Rightarrow> error + QuantumRegister" where
  "applyTwoQubitGate this gate controlQubit targetQubit =
     (if controlQubit < 0 \<or> controlQubit \<ge> int (numQubits this) \<or>
         targetQubit < 0 \<or> targetQubit \<ge> int (numQubits this) then Inl QubitIndexOutOfRange
      else if controlQubit = targetQubit then Inl InvalidQubitPair
      else Inr (this\<lparr>amplitudes :=
                  foldl (applyTwoQubitGate_step gate (nat controlQubit) (nat targetQubit)
                           (amplitudes this))
                        (replicate (dimension this) Complex_ZERO)
                        [0..<dimension this]\<rparr>))"

text \<open>
  \<open>measureAll\<close>.  The uniform sample \<open>Math.random()\<close> is the parameter \<open>random\<close>.
  \<open>measureAll_scan\<close> is the loop over the cumulative distribution: it returns the
  first index whose cumulative probability exceeds the sample, or \<open>None\<close> when the
  loop runs off the end.
\<close>

fun measureAll_scan :: "real \<Rightarrow> real \<Rightarrow> nat \<Rightarrow> real list \<Rightarrow> nat option" where
  "measureAll_scan random cumulativeProb i [] = None"
| "measureAll_scan random cumulativeProb i (p # ps) =
     (let cumulativeProb' = cumulativeProb + p
      in if random < cumulativeProb' then Some i
         else measureAll_scan random cumulativeProb' (Suc i) ps)"

definition measureAll :: "QuantumRegister \<Rightarrow> real \<Rightarrow> nat \<times> QuantumRegister" where
  "measureAll this random =
     (let probabilities = getAllProbabilities this
      in case measureAll_scan random 0 0 probabilities of
           Some i \<Rightarrow>
             (let r = QuantumRegister_initialize this
              in (i, r\<lparr>amplitudes := (amplitudes r)[i := Complex_ONE]\<rparr>))
         | None \<Rightarrow> (0, QuantumRegister_initialize this))"

text \<open>
  \<open>measureQubit\<close>: the first loop sums \<open>prob0\<close> (through \<open>getProbability\<close>, whose
  range check holds for every index of the loop); the second builds the collapsed
  vector and its squared norm together; the last divides by the norm when the squared
  norm is positive and otherwise leaves the vector as the second loop built it.
\<close>

definition measureQubit_prob0 :: "QuantumRegister \<Rightarrow> nat \<Rightarrow> real" where
  "measureQubit_prob0 this qubitIndex =
     foldl (\<lambda>prob0 state.
              if and (drop_bit qubitIndex state) 1 = 0
              then prob0 + Complex_abs (amplitudes this ! state) * Complex_abs (amplitudes this ! state)
              else prob0)
           0 [0..<dimension this]"

definition measureQubit_collapse ::
  "QuantumRegister \<Rightarrow> nat \<Rightarrow> nat \<Rightarrow> Complex_num list \<times> real" where
  "measureQubit_collapse this qubitIndex result =
     foldl (\<lambda>(newAmplitudes, normalizationFactor) state.
              if and (drop_bit qubitIndex state) 1 = result
              then (newAmplitudes @ [amplitudes this ! state],
                    normalizationFactor +
                      Complex_abs (amplitudes this ! state) * Complex_abs (amplitudes this ! state))
              else (newAmplitudes @ [Complex_ZERO], normalizationFactor))
           ([], 0) [0..<dimension this]"

definition measureQubit ::
  "QuantumRegister \<Rightarrow> int \<Rightarrow> real \<Rightarrow> error + nat \<times> QuantumRegister" where
  "measureQubit this qubitIndex random =
     (if qubitIndex < 0 \<or> qubitIndex \<ge> int (numQubits this) then Inl QubitIndexOutOfRange
      else
        let prob0 = measureQubit_prob0 this (nat qubitIndex);
            result = (if random < prob0 then 0 else 1);
            (newAmplitudes, normalizationFactor) =
               measureQubit_collapse this (nat qubitIndex) result;
            newAmplitudes' =
              (if normalizationFactor > 0 then
                 let norm = sqrt normalizationFactor
                 in map (\<lambda>a. Cnum (re a / norm) (im a / norm)) newAmplitudes
               else newAmplitudes)
        in Inr (result, this\<lparr>amplitudes := newAmplitudes'\<rparr>))"

definition createWState :: "int \<Rightarrow> error + QuantumRegister" where
  "createWState n =
     bind_e (QuantumRegister_new n) (\<lambda>register.
       let amp = Cnum (1 / sqrt (real_of_int n)) 0
       in foldM_e (\<lambda>reg i. setAmplitude reg (int (push_bit (nat n - 1 - i) (1::nat))) amp)
            register [0..<nat n])"

section \<open>Algorithms (js/algorithms.js)\<close>

text \<open>
  A step of the trace keeps the step number, a tag for the operation and the amplitudes
  of the register at that point (the source stores their rendering
  \<open>register.toString()\<close>); Grover's steps also keep \<open>getAllProbabilities()\<close>.
  The two interpretation strings of the source are the two constructors of
  \<open>interpretation_t\<close>; the field \<open>interpretation\<close> of the result is \<open>interp\<close>.
\<close>

record step =
  step :: nat
  operation :: string
  state :: "Complex_num list"

record grover_step = step +
  probabilities :: "real list"

datatype interpretation_t = Constant | Balanced

record 'st algorithm_result =
  steps :: "'st list"
  measurementResult :: nat
  finalState :: "Complex_num list"

record deutsch_result = "step algorithm_result" +
  functionType :: string
  interp :: interpretation_t
  isCorrect :: bool

record grover_result = "grover_step algorithm_result" +
  target :: nat
  iterations :: int
  foundCorrect :: bool
  targetProbability :: real

text \<open>The two loop statements that copy the amplitudes out of a register through
  \<open>getAmplitude\<close> and write a vector back through \<open>setAmplitude\<close>.\<close>

definition readAmplitudes_loop :: "QuantumRegister \<Rightarrow> error + Complex_num list" where
  "readAmplitudes_loop register =
     foldM_e (\<lambda>currentAmplitudes i.
                bind_e (getAmplitude register (int i)) (\<lambda>a. Inr (currentAmplitudes @ [a])))
             [] [0..<dimension register]"

definition writeAmplitudes_loop :: "QuantumRegister \<Rightarrow> Complex_num list \<Rightarrow> error + QuantumRegister" where
  "writeAmplitudes_loop register newAmplitudes =
     foldM_e (\<lambda>reg i. setAmplitude reg (int i) (newAmplitudes ! i))
             register [0..<dimension register]"

definition applyDeutschOracle :: "QuantumRegister \<Rightarrow> string \<Rightarrow> error + QuantumRegister" where
  "applyDeutschOracle register fType =
     bind_e
       (if fType = ''constant-0'' then
          Inr (QuantumMatrix_tensorProduct QuantumGates_I QuantumGates_I, register)
        else if fType = ''constant-1'' then
          Inr (QuantumMatrix_tensorProduct QuantumGates_I QuantumGates_X, register)
        else if fType = ''balanced-identity'' then
          Inr (QuantumGates_CNOT, register)
        else if fType = ''balanced-not'' then
          bind_e (applySingleQubitGate register QuantumGates_X 1)
            (\<lambda>register'. Inr (QuantumGates_CNOT, register'))
        else Inr (QuantumMatrix_tensorProduct QuantumGates_I QuantumGates_I, register))
       (\<lambda>(gateMatrix, register').
          if fType \<noteq> ''balanced-not'' then
            bind_e (readAmplitudes_loop register') (\<lambda>currentAmplitudes.
            bind_e (QuantumMatrix_apply gateMatrix currentAmplitudes) (\<lambda>newAmplitudes.
            writeAmplitudes_loop register' newAmplitudes))
          else Inr register')"

fun string_includes :: "string \<Rightarrow> string \<Rightarrow> bool" where
  "string_includes [] sub = (sub = [])"
| "string_includes (c # cs) sub = (take (length sub) (c # cs) = sub \<or> string_includes cs sub)"

definition checkDeutschResult :: "string \<Rightarrow> interpretation_t \<Rightarrow> bool" where
  "checkDeutschResult fType interpretation0 =
     (let expectedConstant = string_includes fType ''constant'';
          gotConstant = (interpretation0 = Constant)
      in expectedConstant = gotConstant)"

definition deutschAlgorithm :: "string \<Rightarrow> real \<Rightarrow> error + deutsch_result" where
  "deutschAlgorithm fType random =
     bind_e (QuantumRegister_new 2) (\<lambda>r0.
     bind_e (setAmplitude r0 1 Complex_ONE) (\<lambda>r1.
     let steps1 = [\<lparr>step = 1, operation = ''init |01>'', state = amplitudes r1\<rparr>] in
     bind_e (applySingleQubitGate r1 QuantumGates_H 0) (\<lambda>r2a.
     bind_e (applySingleQubitGate r2a QuantumGates_H 1) (\<lambda>r2.
     let steps2 = steps1 @ [\<lparr>step = 2, operation = ''H (x) H'', state = amplitudes r2\<rparr>] in
     bind_e (applyDeutschOracle r2 fType) (\<lambda>r3.
     let steps3 = steps2 @ [\<lparr>step = 3, operation = ''oracle Uf'', state = amplitudes r3\<rparr>] in
     bind_e (applySingleQubitGate r3 QuantumGates_H 0) (\<lambda>r4.
     let steps4 = steps3 @ [\<lparr>step = 4, operation = ''H on qubit 0'', state = amplitudes r4\<rparr>] in
     bind_e (measureQubit r4 0 random) (\<lambda>(mResult, r5).
     let steps5 = steps4 @ [\<lparr>step = 5, operation = ''measure qubit 0'', state = amplitudes r5\<rparr>];
         interpretation0 = (if mResult = 0 then Constant else Balanced);
         correct = checkDeutschResult fType interpretation0
     in Inr \<lparr>steps = steps5, measurementResult = mResult, finalState = amplitudes r5,
              functionType = fType, interp = interpretation0, isCorrect = correct\<rparr>)))))))"

definition applyGroverOracle :: "QuantumRegister \<Rightarrow> nat \<Rightarrow> error + QuantumRegister" where
  "applyGroverOracle register targetItem =
     (let oracleMatrix =
            map (\<lambda>i. map (\<lambda>j. if i = j
                                then (if i = targetItem then Cnum (- 1) 0 else Complex_ONE)
                                else Complex_ZERO)
                         [0..<dimension register])
                [0..<dimension register];
          oracle = QuantumMatrix_new oracleMatrix
      in bind_e (readAmplitudes_loop register) (\<lambda>currentAmplitudes.
         bind_e (QuantumMatrix_apply oracle currentAmplitudes) (\<lambda>newAmplitudes.
         writeAmplitudes_loop register newAmplitudes)))"

definition applyGroverDiffuser :: "QuantumRegister \<Rightarrow> error + QuantumRegister" where
  "applyGroverDiffuser register =
     bind_e (applySingleQubitGate register QuantumGates_H 0) (\<lambda>r1.
     bind_e (applySingleQubitGate r1 QuantumGates_H 1) (\<lambda>r2.
     bind_e (getAmplitude r2 0) (\<lambda>currentAmplitude.
     bind_e (setAmplitude r2 0 (Complex_mul currentAmplitude (Cnum (- 1) 0))) (\<lambda>r3.
     bind_e (applySingleQubitGate r3 QuantumGates_H 0) (\<lambda>r4.
     applySingleQubitGate r4 QuantumGates_H 1)))))"

definition groverAlgorithm :: "int \<Rightarrow> int option \<Rightarrow> real \<Rightarrow> error + grover_result" where
  "groverAlgorithm targetItem iterationsArg random =
     (if targetItem < 0 \<or> targetItem > 3 then Inl InvalidAlgorithmParameter
      else
        let optimalIterations = \<lfloor>pi / 4 * sqrt 4\<rfloor>;
            iters = (case iterationsArg of None \<Rightarrow> optimalIterations | Some k \<Rightarrow> k)
        in
        bind_e (QuantumRegister_new 2) (\<lambda>r0.
        bind_e (applySingleQubitGate r0 QuantumGates_H 0) (\<lambda>r1a.
        bind_e (applySingleQubitGate r1a QuantumGates_H 1) (\<lambda>r1.
        let steps1 = [\<lparr>step = 1, operation = ''H (x) H'', state = amplitudes r1,
                       probabilities = getAllProbabilities r1\<rparr>] in
        bind_e (foldM_e (\<lambda>(register, stepsAcc) iteration.
                  bind_e (applyGroverOracle register (nat targetItem)) (\<lambda>ra.
                  let stepsA = stepsAcc @ [\<lparr>step = length stepsAcc + 1, operation = ''oracle'',
                                 state = amplitudes ra, probabilities = getAllProbabilities ra\<rparr>] in
                  bind_e (applyGroverDiffuser ra) (\<lambda>rb.
                  let stepsB = stepsA @ [\<lparr>step = length stepsA + 1, operation = ''diffuser'',
                                 state = amplitudes rb, probabilities = getAllProbabilities rb\<rparr>]
                  in Inr (rb, stepsB))))
                (r1, steps1) [1..<Suc (nat iters)]) (\<lambda>(r2, steps2).
        let (mResult, r3) = measureAll r2 random;
            finalProbabilities = getAllProbabilities r3;
            steps3 = steps2 @ [\<lparr>step = length steps2 + 1, operation = ''measure'',
                         state = amplitudes r3, probabilities = finalProbabilities\<rparr>];
            found = (int mResult = targetItem);
            targetProb = probabilities (steps3 ! (length steps3 - 2)) ! nat targetItem
        in Inr \<lparr>steps = steps3, measurementResult = mResult, finalState = amplitudes r3,
                 target = nat targetItem, iterations = iters, foundCorrect = found,
                 targetProbability = targetProb\<rparr>)))))"

section \<open>Notions used to state the properties\<close>

text \<open>
  \<open>bitval s i\<close> is bit \<open>i\<close> of the basis index \<open>s\<close> as a number, what the source
  computes as \<open>(s >> i) & 1\<close>; \<open>weight c\<close> is \<open>|c|\<^sup>2\<close>; \<open>norm_sq\<close> is the sum
  \<open>\<Sum>|amplitude\<^sub>i|\<^sup>2\<close> over the basis states of a register; \<open>outcome_weight reg i r\<close> is
  the part of that sum over the basis states whose bit \<open>i\<close> is \<open>r\<close>: for a normalised
  register, the probability that measuring qubit \<open>i\<close> gives \<open>r\<close>.  A register is
  well-formed when it is as the constructor and the methods leave it: between 1 and 20
  qubits, \<open>dimension = 2\<^sup>n\<close> and an amplitude array of that length.
\<close>

definition bitval :: "nat \<Rightarrow> nat \<Rightarrow> nat" where
  "bitval s i = (if bit s i then 1 else 0)"

definition weight :: "Complex_num \<Rightarrow> real" where
  "weight c = (re c)\<^sup>2 + (im c)\<^sup>2"

definition norm_sq :: "QuantumRegister \<Rightarrow> real" where
  "norm_sq reg = (\<Sum>s<dimension reg. weight (amplitudes reg ! s))"

definition outcome_weight :: "QuantumRegister \<Rightarrow> nat \<Rightarrow> nat \<Rightarrow> real" where
  "outcome_weight reg i r =
     (\<Sum>s | s < dimension reg \<and> bitval s i = r. weight (amplitudes reg ! s))"

definition QuantumRegister_wf :: "QuantumRegister \<Rightarrow> bool" where
  "QuantumRegister_wf reg \<longleftrightarrow>
     1 \<le> numQubits reg \<and> numQubits reg \<le> 20 \<and> dimension reg = 2 ^ numQubits reg \<and>
     length (amplitudes reg) = dimension reg"

definition is_2x2 :: "QuantumMatrix \<Rightarrow> bool" where
  "is_2x2 gate \<longleftrightarrow>
     rows gate = 2 \<and> cols gate = 2 \<and> length (elements gate) = 2 \<and>
     length (elements gate ! 0) = 2 \<and> length (elements gate ! 1) = 2"

text \<open>
  A matrix is unitary when it is square and its columns are orthonormal under the
  source's inner product \<open>ComplexUtils.dot\<close>.  \<open>cx\<close> reads a value of the source's
  complex type as a complex number of the logic.
\<close>

definition QuantumMatrix_column :: "QuantumMatrix \<Rightarrow> nat \<Rightarrow> Complex_num list" where
  "QuantumMatrix_column g j = map (\<lambda>row. row ! j) (elements g)"

definition is_unitary :: "QuantumMatrix \<Rightarrow> bool" where
  "is_unitary g \<longleftrightarrow>
     rows g = cols g \<and> length (elements g) = rows g \<and>
     list_all (\<lambda>row. length row = cols g) (elements g) \<and>
     (\<forall>j<cols g. \<forall>l<cols g.
        ComplexUtils_dot (QuantumMatrix_column g j) (QuantumMatrix_column g l)
          = Inr (if j = l then Complex_ONE else Complex_ZERO))"

definition cx :: "Complex_num \<Rightarrow> complex" where
  "cx c = Complex (re c) (im c)"

text \<open>
  For the two-qubit gate: \<open>sub_index c t s\<close> is the 2-bit selector (control bit, target
  bit) of a basis index, and \<open>place c t s k\<close> is \<open>s\<close> with those two bits replaced by the
  selector \<open>k\<close>, all other bits kept: the \<open>newState\<close> of the source's inner loop.
\<close>

definition sub_index :: "nat \<Rightarrow> nat \<Rightarrow> nat \<Rightarrow> nat" where
  "sub_index c t s = bitval s c * 2 + bitval s t"

definition place :: "nat \<Rightarrow> nat \<Rightarrow> nat \<Rightarrow> nat \<Rightarrow> nat" where
  "place c t s k =
     or (unset_bit t (or (unset_bit c s) (push_bit c (k div 2)))) (push_bit t (k mod 2))"

text \<open>\<open>contrib g c t old s u\<close> is what one pass of the outer loop of
  \<open>applyTwoQubitGate\<close>, for the basis index \<open>s\<close>, adds to slot \<open>u\<close>.\<close>

definition contrib ::
  "QuantumMatrix \<Rightarrow> nat \<Rightarrow> nat \<Rightarrow> Complex_num list \<Rightarrow> nat \<Rightarrow> nat \<Rightarrow> complex" where
  "contrib g c t old s u =
     (\<Sum>out<4. if place c t s out = u
                then cx (elements g ! out ! sub_index c t s) * cx (old ! s) else 0)"

definition gate_diag :: "QuantumMatrix \<Rightarrow> nat \<Rightarrow> nat \<Rightarrow> Complex_num" where
  "gate_diag g q s = (if bit s q then elements g ! 1 ! 1 else elements g ! 0 ! 0)"

definition gate_off :: "QuantumMatrix \<Rightarrow> nat \<Rightarrow> nat \<Rightarrow> Complex_num" where
  "gate_off g q s = (if bit s q then elements g ! 1 ! 0 else elements g ! 0 ! 1)"

text \<open>
  For the rounded arithmetic: \<open>unit_roundoff\<close> is \<open>2\<^sup>-\<^sup>5\<^sup>3\<close>, and \<open>rnd_ok fl x\<close> says that
  rounding \<open>x\<close> commits a relative error of at most \<open>unit_roundoff\<close>: what rounding to
  nearest guarantees when \<open>x\<close> is in the normal range of binary64, that is when the
  operation neither overflows nor underflows.  \<open>mul_roundings\<close>, \<open>div_guard_roundings\<close>,
  \<open>div_value_roundings\<close> and \<open>equals_roundings\<close> list the exact values that are rounded
  in a run of \<open>mul\<close>, of the guard of \<open>div\<close>, of the rest of \<open>div\<close> and of \<open>equals\<close>
  with the default tolerance.  \<open>fl_example\<close> is a rounding function that is exact
  nowhere but at 0 and within the bound everywhere.
\<close>

definition unit_roundoff :: real where
  "unit_roundoff = 1 / 2 ^ 53"

definition rnd_ok :: "(real \<Rightarrow> real) \<Rightarrow> real \<Rightarrow> bool" where
  "rnd_ok fl x \<longleftrightarrow> \<bar>fl x - x\<bar> \<le> unit_roundoff * \<bar>x\<bar>"

definition mul_roundings :: "(real \<Rightarrow> real) \<Rightarrow> Complex_num \<Rightarrow> Complex_num \<Rightarrow> real list" where
  "mul_roundings fl this other =
     [re this * re other, im this * im other,
      fl (re this * re other) - fl (im this * im other),
      re this * im other, im this * re other,
      fl (re this * im other) + fl (im this * re other)]"

definition div_guard_roundings :: "(real \<Rightarrow> real) \<Rightarrow> Complex_num \<Rightarrow> real list" where
  "div_guard_roundings fl other =
     [re other * re other, im other * im other,
      fl (re other * re other) + fl (im other * im other),
      1 / 10 ^ 15]"

definition div_value_roundings ::
  "(real \<Rightarrow> real) \<Rightarrow> Complex_num \<Rightarrow> Complex_num \<Rightarrow> real list" where
  "div_value_roundings fl this other =
     (let denominator = fl (fl (re other * re other) + fl (im other * im other))
      in [re this * re other, im this * im other,
          fl (re this * re other) + fl (im this * im other),
          fl (fl (re this * re other) + fl (im this * im other)) / denominator,
          im this * re other, re this * im other,
          fl (im this * re other) - fl (re this * im other),
          fl (fl (im this * re other) - fl (re this * im other)) / denominator])"

definition equals_roundings :: "Complex_num \<Rightarrow> Complex_num \<Rightarrow> real list" where
  "equals_roundings this other = [re this - re other, im this - im other, 1 / 10 ^ 10]"

definition fl_example :: "real \<Rightarrow> real" where
  "fl_example x = x + x / 2 ^ 54"

section \<open>Evaluation lemmas\<close>

lemma bind_e_Inr: "bind_e (Inr x) f = f x"
  by (simp add: bind_e_def)

lemma bind_e_Inl: "bind_e (Inl e) f = Inl e"
  by (simp add: bind_e_def)

lemma bind_e_assoc: "bind_e (bind_e m f) g = bind_e m (\<lambda>x. bind_e (f x) g)"
  by (simp add: bind_e_def split: sum.splits)

lemma upt_0_4: "[0..<4] = [0, 1, 2, 3]"
  by (simp add: upt_rec)

lemma upt_0_2: "[0..<2] = [0, 1]"
  by (simp add: upt_rec)

lemma replicate_4: "replicate 4 x = [x, x, x, x]"
  by (simp add: numeral_eq_Suc)

lemma replicate_2: "replicate 2 x = [x, x]"
  by (simp add: numeral_eq_Suc)

lemma list_update_Cons_numeral: "(x # xs)[numeral k := y] = x # xs[pred_numeral k := y]"
  by (simp add: numeral_eq_Suc)

lemma Complex_abs_real: "Complex_abs (Cnum x 0) = \<bar>x\<bar>"
  by (simp add: Complex_abs_def)

lemma Complex_abs_sq: "Complex_abs c * Complex_abs c = re c * re c + im c * im c"
  by (simp add: Complex_abs_def)

lemma sqrt_half: "sqrt (1 / 2) = 1 / sqrt 2"
  by (simp add: real_sqrt_divide)

lemma half_div_inv_sqrt2: "(1 / 2) / (1 / sqrt 2) = 1 / sqrt 2"
proof -
  have "sqrt 2 * sqrt 2 = 2" by simp
  then show ?thesis by (simp add: field_simps)
qed

lemma inv_sqrt2_not_tiny: "\<not> 1 / sqrt 2 < 1 / 10 ^ 15"
proof -
  have "sqrt 2 \<le> 2" by (rule real_le_lsqrt) simp_all
  then have "1 / 2 \<le> 1 / sqrt 2" by (simp add: field_simps)
  then show ?thesis by simp
qed

section \<open>Complex division after multiplication\<close>

text \<open>Exact arithmetic is the instance of the rounded one in which nothing is rounded.\<close>

lemma Complex_mul_fl_exact: "Complex_mul_fl (\<lambda>x. x) a b = Complex_mul a b"
  by (simp add: Complex_mul_fl_def Complex_mul_def)

text \<open>
  The error analysis.  \<open>two_term\<close> bounds the error of a rounded sum or difference of
  two rounded values; \<open>numerator_bound\<close> that of a numerator of \<open>div\<close> whose operands
  already carry the error of \<open>mul\<close>; \<open>quotient_bound\<close> that of the rounded quotient.
\<close>

lemma unit_roundoff_pos: "0 < unit_roundoff"
  by (simp add: unit_roundoff_def)

lemma unit_roundoff_small: "unit_roundoff \<le> 1 / 10 ^ 15"
  by (simp add: unit_roundoff_def)

lemma rnd_ok_abs: "rnd_ok fl x \<Longrightarrow> \<bar>fl x\<bar> \<le> (1 + unit_roundoff) * \<bar>x\<bar>"
  unfolding rnd_ok_def by (simp add: algebra_simps)

lemma two_term:
  assumes r1: "rnd_ok fl p1" and r2: "rnd_ok fl p2"
    and r3: "rnd_ok fl (fl p1 + s * fl p2)" and s: "\<bar>s\<bar> = 1"
  shows "\<bar>fl (fl p1 + s * fl p2) - (p1 + s * p2)\<bar>
           \<le> 201 / 100 * unit_roundoff * (\<bar>p1\<bar> + \<bar>p2\<bar>)"
proof -
  define u where "u = unit_roundoff"
  define t where "t = fl p1 + s * fl p2"
  define m where "m = \<bar>p1\<bar> + \<bar>p2\<bar>"
  have u0: "0 < u" and u1: "u \<le> 1 / 100"
    using unit_roundoff_pos unit_roundoff_small by (simp_all add: u_def)
  have m0: "0 \<le> m" by (simp add: m_def)
  have e1: "\<bar>fl p1 - p1\<bar> \<le> u * \<bar>p1\<bar>" using r1 by (simp add: rnd_ok_def u_def)
  have e2: "\<bar>fl p2 - p2\<bar> \<le> u * \<bar>p2\<bar>" using r2 by (simp add: rnd_ok_def u_def)
  have e3: "\<bar>fl t - t\<bar> \<le> u * \<bar>t\<bar>" using r3 by (simp add: rnd_ok_def u_def t_def)
  have "s * fl p2 - s * p2 = s * (fl p2 - p2)" by (simp add: algebra_simps)
  then have e2s: "\<bar>s * fl p2 - s * p2\<bar> \<le> u * \<bar>p2\<bar>"
    using e2 s by (simp add: abs_mult)
  have sp2: "\<bar>s * p2\<bar> = \<bar>p2\<bar>" using s by (simp add: abs_mult)
  have d1: "\<bar>t - (p1 + s * p2)\<bar> \<le> u * m"
    using e1 e2s unfolding t_def m_def by (simp add: algebra_simps)
  have "\<bar>t\<bar> \<le> \<bar>p1 + s * p2\<bar> + u * m" using d1 by linarith
  also have "\<dots> \<le> m + u * m" using sp2 unfolding m_def by linarith
  finally have tb: "\<bar>t\<bar> \<le> m + u * m" .
  have "u * \<bar>t\<bar> \<le> u * (m + u * m)" using tb u0 by (simp add: mult_left_mono)
  also have "\<dots> = u * m + u * u * m" by (simp add: algebra_simps)
  also have "\<dots> \<le> u * m + (1 / 100) * u * m"
  proof -
    have "u * u \<le> (1 / 100) * u" using u0 u1 by (simp add: mult_right_mono)
    then have "u * u * m \<le> (1 / 100) * u * m" using m0 by (rule mult_right_mono)
    then show ?thesis by (simp add: ac_simps)
  qed
  finally have e3': "u * \<bar>t\<bar> \<le> u * m + (1 / 100) * u * m" .
  have "\<bar>fl t - (p1 + s * p2)\<bar> \<le> \<bar>fl t - t\<bar> + \<bar>t - (p1 + s * p2)\<bar>" by linarith
  also have "\<dots> \<le> (u * m + (1 / 100) * u * m) + u * m" using e3 e3' d1 by linarith
  also have "\<dots> = 201 / 100 * u * m" by (simp add: algebra_simps)
  finally show ?thesis by (simp add: t_def u_def m_def)
qed

lemma two_term_add:
  assumes "rnd_ok fl p1" "rnd_ok fl p2" "rnd_ok fl (fl p1 + fl p2)"
  shows "\<bar>fl (fl p1 + fl p2) - (p1 + p2)\<bar> \<le> 201 / 100 * unit_roundoff * (\<bar>p1\<bar> + \<bar>p2\<bar>)"
  using two_term [of fl p1 p2 1] assms by simp

lemma two_term_sub:
  assumes "rnd_ok fl p1" "rnd_ok fl p2" "rnd_ok fl (fl p1 - fl p2)"
  shows "\<bar>fl (fl p1 - fl p2) - (p1 - p2)\<bar> \<le> 201 / 100 * unit_roundoff * (\<bar>p1\<bar> + \<bar>p2\<bar>)"
  using two_term [of fl p1 p2 "- 1"] assms by simp


lemma numerator_bound:
  assumes hp: "\<bar>p - P\<bar> \<le> 201 / 100 * unit_roundoff * Qp" and P: "\<bar>P\<bar> \<le> Qp"
    and hq: "\<bar>q - Q\<bar> \<le> 201 / 100 * unit_roundoff * Qq" and Q: "\<bar>Q\<bar> \<le> Qq"
    and r1: "rnd_ok fl (p * y1)" and r2: "rnd_ok fl (q * y2)"
    and r3: "rnd_ok fl (fl (p * y1) + s * fl (q * y2))" and s: "\<bar>s\<bar> = 1"
  shows "\<bar>fl (fl (p * y1) + s * fl (q * y2)) - (P * y1 + s * (Q * y2))\<bar>
           \<le> 41 / 10 * unit_roundoff * (Qp * \<bar>y1\<bar> + Qq * \<bar>y2\<bar>)"
proof -
  define u where "u = unit_roundoff"
  define w where "w = 201 / 100 * u"
  define K where "K = Qp * \<bar>y1\<bar> + Qq * \<bar>y2\<bar>"
  have u0: "0 < u" and u1: "u \<le> 1 / 1000"
    using unit_roundoff_pos unit_roundoff_small by (simp_all add: u_def)
  have w0: "0 \<le> w" and w1: "w \<le> 1 / 100" using u0 u1 by (simp_all add: w_def)
  have Qp0: "0 \<le> Qp" using P by linarith
  have Qq0: "0 \<le> Qq" using Q by linarith
  have K0: "0 \<le> K" using Qp0 Qq0 by (simp add: K_def)
  have hp': "\<bar>p - P\<bar> \<le> w * Qp" using hp by (simp add: w_def u_def)
  have hq': "\<bar>q - Q\<bar> \<le> w * Qq" using hq by (simp add: w_def u_def)
  have "w * Qp \<le> (1 / 100) * Qp" using w1 Qp0 by (rule mult_right_mono)
  then have pb: "\<bar>p\<bar> \<le> 101 / 100 * Qp" using hp' P by linarith
  have "w * Qq \<le> (1 / 100) * Qq" using w1 Qq0 by (rule mult_right_mono)
  then have qb: "\<bar>q\<bar> \<le> 101 / 100 * Qq" using hq' Q by linarith
  have py: "\<bar>p * y1\<bar> \<le> 101 / 100 * (Qp * \<bar>y1\<bar>)"
    using mult_right_mono [OF pb abs_ge_zero [of y1]] by (simp add: abs_mult)
  have qy: "\<bar>q * y2\<bar> \<le> 101 / 100 * (Qq * \<bar>y2\<bar>)"
    using mult_right_mono [OF qb abs_ge_zero [of y2]] by (simp add: abs_mult)
  have t: "\<bar>fl (fl (p * y1) + s * fl (q * y2)) - (p * y1 + s * (q * y2))\<bar>
             \<le> w * (\<bar>p * y1\<bar> + \<bar>q * y2\<bar>)"
    using two_term [OF r1 r2 r3 s] by (simp add: w_def u_def)
  have "\<bar>p * y1\<bar> + \<bar>q * y2\<bar> \<le> 101 / 100 * K"
    using py qy unfolding K_def by (simp only: distrib_left add_mono)
  then have "w * (\<bar>p * y1\<bar> + \<bar>q * y2\<bar>) \<le> w * (101 / 100 * K)"
    using w0 by (rule mult_left_mono)
  with t have t': "\<bar>fl (fl (p * y1) + s * fl (q * y2)) - (p * y1 + s * (q * y2))\<bar>
             \<le> 101 / 100 * (w * K)" by simp
  have d1: "\<bar>(p - P) * y1\<bar> \<le> w * (Qp * \<bar>y1\<bar>)"
    using mult_right_mono [OF hp' abs_ge_zero [of y1]] by (simp add: abs_mult ac_simps)
  have d2: "\<bar>s * ((q - Q) * y2)\<bar> \<le> w * (Qq * \<bar>y2\<bar>)"
    using mult_right_mono [OF hq' abs_ge_zero [of y2]] s by (simp add: abs_mult ac_simps)
  have "(p * y1 + s * (q * y2)) - (P * y1 + s * (Q * y2)) = (p - P) * y1 + s * ((q - Q) * y2)"
    by (simp add: algebra_simps)
  then have "\<bar>(p * y1 + s * (q * y2)) - (P * y1 + s * (Q * y2))\<bar>
               \<le> \<bar>(p - P) * y1\<bar> + \<bar>s * ((q - Q) * y2)\<bar>" by simp
  also have "\<dots> \<le> w * K" using d1 d2 by (simp add: K_def algebra_simps)
  finally have e: "\<bar>(p * y1 + s * (q * y2)) - (P * y1 + s * (Q * y2))\<bar> \<le> w * K" .
  have wK: "w * K = 201 / 100 * (u * K)" by (simp add: w_def)
  have uK: "0 \<le> u * K" using u0 K0 by simp
  have "\<bar>fl (fl (p * y1) + s * fl (q * y2)) - (P * y1 + s * (Q * y2))\<bar>
          \<le> 101 / 100 * (w * K) + w * K" using t' e by linarith
  also have "\<dots> \<le> 41 / 10 * (u * K)" using uK unfolding wK by linarith
  finally show ?thesis by (simp add: u_def K_def)
qed

lemma quotient_bound:
  assumes n: "\<bar>n - x * D\<bar> \<le> 41 / 10 * unit_roundoff * (A * D)"
    and d: "\<bar>d - D\<bar> \<le> 201 / 100 * unit_roundoff * D"
    and x: "\<bar>x\<bar> \<le> A" and D: "0 < D" and r: "rnd_ok fl (n / d)"
  shows "\<bar>fl (n / d) - x\<bar> \<le> 8 * unit_roundoff * A"
proof -
  define u where "u = unit_roundoff"
  have u0: "0 < u" and u1: "u \<le> 1 / 1000"
    using unit_roundoff_pos unit_roundoff_small by (simp_all add: u_def)
  have A0: "0 \<le> A" using x by linarith
  have uA: "0 \<le> u * A" using u0 A0 by simp
  have uD: "u * D \<le> (1 / 1000) * D" using u1 D by (simp add: mult_right_mono)
  have "\<bar>d - D\<bar> \<le> 201 / 100 * (u * D)" using d unfolding u_def by (simp only: mult.assoc)
  then have dlow: "99 / 100 * D \<le> d" using uD by linarith
  have dpos: "0 < d" using dlow D by linarith
  have "\<bar>x * (D - d)\<bar> = \<bar>x\<bar> * \<bar>d - D\<bar>" by (simp add: abs_mult abs_minus_commute)
  also have "\<dots> \<le> A * (201 / 100 * u * D)"
    using x d A0 by (intro mult_mono) (simp_all add: u_def)
  finally have xd: "\<bar>x * (D - d)\<bar> \<le> 201 / 100 * (u * A * D)" by (simp add: ac_simps)
  have "n - x * d = (n - x * D) + x * (D - d)" by (simp add: algebra_simps)
  then have "\<bar>n - x * d\<bar> \<le> \<bar>n - x * D\<bar> + \<bar>x * (D - d)\<bar>" by simp
  also have "\<dots> \<le> 611 / 100 * (u * A * D)"
    using n xd by (simp add: u_def ac_simps)
  finally have nd: "\<bar>n - x * d\<bar> \<le> 611 / 100 * (u * A * D)" .
  have uAD: "0 \<le> u * A * D" using u0 A0 D by simp
  have "62 / 10 * (u * A) * (99 / 100 * D) = 6138 / 1000 * (u * A * D)" by simp
  then have "611 / 100 * (u * A * D) \<le> 62 / 10 * (u * A) * (99 / 100 * D)"
    using uAD by linarith
  also have "\<dots> \<le> 62 / 10 * (u * A) * d"
    using dlow uA by (intro mult_left_mono) simp_all
  finally have nd': "\<bar>n - x * d\<bar> \<le> 62 / 10 * (u * A) * d" using nd by linarith
  have "n / d - x = (n - x * d) / d" using dpos by (simp add: field_simps)
  then have "\<bar>n / d - x\<bar> = \<bar>n - x * d\<bar> / d" using dpos by simp
  also have "\<dots> \<le> 62 / 10 * (u * A)" using nd' dpos by (simp add: pos_divide_le_eq)
  finally have q: "\<bar>n / d - x\<bar> \<le> 62 / 10 * (u * A)" .
  have "u * A \<le> (1 / 1000) * A" using u1 A0 by (rule mult_right_mono)
  then have qa: "\<bar>n / d\<bar> \<le> 101 / 100 * A" using q x by linarith
  have "\<bar>fl (n / d) - n / d\<bar> \<le> u * \<bar>n / d\<bar>" using r by (simp add: rnd_ok_def u_def)
  also have "\<dots> \<le> u * (101 / 100 * A)" using qa less_imp_le [OF u0] by (rule mult_left_mono)
  finally have f: "\<bar>fl (n / d) - n / d\<bar> \<le> 101 / 100 * (u * A)" by simp
  have "\<bar>fl (n / d) - x\<bar> \<le> 101 / 100 * (u * A) + 62 / 10 * (u * A)" using f q by linarith
  also have "\<dots> \<le> 8 * (u * A)" using uA by linarith
  finally show ?thesis by (simp add: u_def)
qed

lemma cross_term: "2 * (\<bar>x\<bar> * \<bar>y\<bar>) \<le> x * x + y * (y::real)"
proof -
  have "0 \<le> (\<bar>x\<bar> - \<bar>y\<bar>) * (\<bar>x\<bar> - \<bar>y\<bar>)" by simp
  also have "\<dots> = x * x + y * y - 2 * (\<bar>x\<bar> * \<bar>y\<bar>)"
    by (simp add: algebra_simps abs_mult_self_eq)
  finally show ?thesis by simp
qed

lemma weighted_sizes:
  fixes ar ai br bi :: real
  shows "(\<bar>ar * br\<bar> + \<bar>ai * bi\<bar>) * \<bar>br\<bar> + (\<bar>ar * bi\<bar> + \<bar>ai * br\<bar>) * \<bar>bi\<bar>
           \<le> (\<bar>ar\<bar> + \<bar>ai\<bar>) * (br * br + bi * bi)"
proof -
  have "(\<bar>ar * br\<bar> + \<bar>ai * bi\<bar>) * \<bar>br\<bar> + (\<bar>ar * bi\<bar> + \<bar>ai * br\<bar>) * \<bar>bi\<bar>
          = \<bar>ar\<bar> * (br * br + bi * bi) + \<bar>ai\<bar> * (2 * (\<bar>br\<bar> * \<bar>bi\<bar>))"
    by (simp add: abs_mult algebra_simps abs_mult_self_eq)
  also have "\<dots> \<le> \<bar>ar\<bar> * (br * br + bi * bi) + \<bar>ai\<bar> * (br * br + bi * bi)"
    using mult_left_mono [OF cross_term [of br bi] abs_ge_zero [of ai]] by simp
  finally show ?thesis by (simp add: algebra_simps)
qed


lemma Complex_abs_power2: "(Complex_abs b)\<^sup>2 = re b * re b + im b * im b"
  by (simp add: Complex_abs_def)

lemma denominator_bound:
  assumes "list_all (rnd_ok fl) (div_guard_roundings fl b)"
  shows "\<bar>fl (fl (re b * re b) + fl (im b * im b)) - (re b * re b + im b * im b)\<bar>
           \<le> 201 / 100 * unit_roundoff * (re b * re b + im b * im b)"
  using assms two_term_add [of fl "re b * re b" "im b * im b"]
  by (simp add: div_guard_roundings_def)

lemma rnd_ok_example: "rnd_ok fl_example x"
  by (simp add: rnd_ok_def fl_example_def unit_roundoff_def abs_mult)

lemma div_fl_raises:
  assumes g: "list_all (rnd_ok fl) (div_guard_roundings fl b)"
    and small: "(Complex_abs b)\<^sup>2 \<le> (1 - 1 / 10 ^ 6) / 10 ^ 15"
  shows "Complex_div_fl fl p b = Inl DivisionByZero"
proof -
  define D where "D = re b * re b + im b * im b"
  define d where "d = fl (fl (re b * re b) + fl (im b * im b))"
  define u where "u = unit_roundoff"
  have u0: "0 < u" and u1: "u \<le> 1 / 10 ^ 15"
    using unit_roundoff_pos unit_roundoff_small by (simp_all add: u_def)
  have D0: "0 \<le> D" by (simp add: D_def)
  have DS: "D \<le> (1 - 1 / 10 ^ 6) / 10 ^ 15" using small by (simp only: Complex_abs_power2 D_def)
  have "\<bar>d - D\<bar> \<le> 201 / 100 * (u * D)"
    using denominator_bound [OF g] unfolding d_def D_def u_def by (simp only: mult.assoc)
  moreover have "u * D \<le> (1 / 10 ^ 15) * D" using u1 D0 by (rule mult_right_mono)
  ultimately have db: "\<bar>d\<bar> \<le> D + 201 / 100 * ((1 / 10 ^ 15) * D)" using D0 by linarith
  have "rnd_ok fl (1 / 10 ^ 15)" using g by (simp add: div_guard_roundings_def)
  then have "\<bar>fl (1 / 10 ^ 15) - 1 / 10 ^ 15\<bar> \<le> u * (1 / 10 ^ 15)"
    by (simp add: rnd_ok_def u_def)
  moreover have "u * (1 / 10 ^ 15) \<le> (1 / 10 ^ 15) * (1 / 10 ^ 15)"
    using u1 by (rule mult_right_mono) simp
  ultimately have c: "1 / 10 ^ 15 - (1 / 10 ^ 15) * (1 / 10 ^ 15) \<le> fl (1 / 10 ^ 15)"
    by linarith
  have "\<bar>d\<bar> < fl (1 / 10 ^ 15)" using db DS c by simp
  then show ?thesis by (simp add: Complex_div_fl_def Let_def d_def)
qed

lemma div_fl_roundtrip:
  assumes h: "list_all (rnd_ok fl)
                (mul_roundings fl a b @ div_guard_roundings fl b @
                 div_value_roundings fl (Complex_mul_fl fl a b) b)"
    and big: "(1 + 1 / 10 ^ 6) / 10 ^ 15 \<le> (Complex_abs b)\<^sup>2"
  shows "\<exists>c. Complex_div_fl fl (Complex_mul_fl fl a b) b = Inr c \<and>
             \<bar>re c - re a\<bar> \<le> 8 * unit_roundoff * (\<bar>re a\<bar> + \<bar>im a\<bar>) \<and>
             \<bar>im c - im a\<bar> \<le> 8 * unit_roundoff * (\<bar>re a\<bar> + \<bar>im a\<bar>)"
proof -
  define ar where "ar = re a"
  define ai where "ai = im a"
  define br where "br = re b"
  define bi where "bi = im b"
  define D where "D = br * br + bi * bi"
  define d where "d = fl (fl (br * br) + fl (bi * bi))"
  define u where "u = unit_roundoff"
  define pr where "pr = fl (fl (ar * br) - fl (ai * bi))"
  define pi where "pi = fl (fl (ar * bi) + fl (ai * br))"
  define nr where "nr = fl (fl (pr * br) + fl (pi * bi))"
  define ni where "ni = fl (fl (pi * br) - fl (pr * bi))"
  define A where "A = \<bar>ar\<bar> + \<bar>ai\<bar>"
  have u0: "0 < u" and u1: "u \<le> 1 / 10 ^ 15"
    using unit_roundoff_pos unit_roundoff_small by (simp_all add: u_def)
  have g: "list_all (rnd_ok fl) (div_guard_roundings fl b)" using h by simp
  have mul: "Complex_mul_fl fl a b = Cnum pr pi"
    by (simp add: Complex_mul_fl_def pr_def pi_def ar_def ai_def br_def bi_def)
  have m: "rnd_ok fl (ar * br)" "rnd_ok fl (ai * bi)" "rnd_ok fl (fl (ar * br) - fl (ai * bi))"
          "rnd_ok fl (ar * bi)" "rnd_ok fl (ai * br)" "rnd_ok fl (fl (ar * bi) + fl (ai * br))"
    using h by (simp_all add: mul_roundings_def ar_def ai_def br_def bi_def)
  have v: "rnd_ok fl (pr * br)" "rnd_ok fl (pi * bi)" "rnd_ok fl (fl (pr * br) + fl (pi * bi))"
          "rnd_ok fl (fl (fl (pr * br) + fl (pi * bi)) / d)"
          "rnd_ok fl (pi * br)" "rnd_ok fl (pr * bi)" "rnd_ok fl (fl (pi * br) - fl (pr * bi))"
          "rnd_ok fl (fl (fl (pi * br) - fl (pr * bi)) / d)"
    using h unfolding mul
    by (simp_all add: div_value_roundings_def Let_def d_def br_def bi_def)
  have DB: "(1 + 1 / 10 ^ 6) / 10 ^ 15 \<le> D"
    using big by (simp only: Complex_abs_power2 D_def br_def bi_def)
  then have Dpos: "0 < D" by simp
  have dD: "\<bar>d - D\<bar> \<le> 201 / 100 * unit_roundoff * D"
    using denominator_bound [OF g] by (simp only: d_def D_def br_def bi_def)
  have "\<bar>d - D\<bar> \<le> 201 / 100 * (u * D)" using dD unfolding u_def by (simp only: mult.assoc)
  moreover have "u * D \<le> (1 / 10 ^ 15) * D" using u1 Dpos by (simp add: mult_right_mono)
  ultimately have dl: "D - 201 / 100 * ((1 / 10 ^ 15) * D) \<le> d" by linarith
  have "rnd_ok fl (1 / 10 ^ 15)" using g by (simp add: div_guard_roundings_def)
  then have "\<bar>fl (1 / 10 ^ 15) - 1 / 10 ^ 15\<bar> \<le> u * (1 / 10 ^ 15)"
    by (simp add: rnd_ok_def u_def)
  moreover have "u * (1 / 10 ^ 15) \<le> (1 / 10 ^ 15) * (1 / 10 ^ 15)"
    using u1 by (rule mult_right_mono) simp
  ultimately have c: "fl (1 / 10 ^ 15) \<le> 1 / 10 ^ 15 + (1 / 10 ^ 15) * (1 / 10 ^ 15)"
    by linarith
  have ng: "\<not> \<bar>d\<bar> < fl (1 / 10 ^ 15)" using dl DB c by simp
  have hP: "\<bar>pr - (ar * br - ai * bi)\<bar> \<le> 201 / 100 * unit_roundoff * (\<bar>ar * br\<bar> + \<bar>ai * bi\<bar>)"
    unfolding pr_def using m(1-3) by (rule two_term_sub)
  have hQ: "\<bar>pi - (ar * bi + ai * br)\<bar> \<le> 201 / 100 * unit_roundoff * (\<bar>ar * bi\<bar> + \<bar>ai * br\<bar>)"
    unfolding pi_def using m(4-6) by (rule two_term_add)
  have P: "\<bar>ar * br - ai * bi\<bar> \<le> \<bar>ar * br\<bar> + \<bar>ai * bi\<bar>" by (rule abs_triangle_ineq4)
  have Q: "\<bar>ar * bi + ai * br\<bar> \<le> \<bar>ar * bi\<bar> + \<bar>ai * br\<bar>" by (rule abs_triangle_ineq)
  have "\<bar>fl (fl (pr * br) + 1 * fl (pi * bi)) - ((ar * br - ai * bi) * br + 1 * ((ar * bi + ai * br) * bi))\<bar>
          \<le> 41 / 10 * unit_roundoff * ((\<bar>ar * br\<bar> + \<bar>ai * bi\<bar>) * \<bar>br\<bar> + (\<bar>ar * bi\<bar> + \<bar>ai * br\<bar>) * \<bar>bi\<bar>)"
    using hP P hQ Q v(1,2) by (rule numerator_bound) (simp_all add: v(3))
  moreover have "(ar * br - ai * bi) * br + 1 * ((ar * bi + ai * br) * bi) = ar * D"
    by (simp add: D_def algebra_simps)
  ultimately have n1: "\<bar>nr - ar * D\<bar>
          \<le> 41 / 10 * unit_roundoff * ((\<bar>ar * br\<bar> + \<bar>ai * bi\<bar>) * \<bar>br\<bar> + (\<bar>ar * bi\<bar> + \<bar>ai * br\<bar>) * \<bar>bi\<bar>)"
    by (simp add: nr_def)
  have "41 / 10 * unit_roundoff * ((\<bar>ar * br\<bar> + \<bar>ai * bi\<bar>) * \<bar>br\<bar> + (\<bar>ar * bi\<bar> + \<bar>ai * br\<bar>) * \<bar>bi\<bar>)
          \<le> 41 / 10 * unit_roundoff * (A * D)"
    unfolding A_def D_def using unit_roundoff_pos
    by (intro mult_left_mono weighted_sizes) simp
  with n1 have nR: "\<bar>nr - ar * D\<bar> \<le> 41 / 10 * unit_roundoff * (A * D)" by linarith
  have xr: "\<bar>ar\<bar> \<le> A" by (simp add: A_def)
  have R: "\<bar>fl (nr / d) - ar\<bar> \<le> 8 * unit_roundoff * A"
    using nR dD xr Dpos by (rule quotient_bound) (simp add: nr_def v(4))
  have "\<bar>fl (fl (pi * br) + (- 1) * fl (pr * bi)) - ((ar * bi + ai * br) * br + (- 1) * ((ar * br - ai * bi) * bi))\<bar>
          \<le> 41 / 10 * unit_roundoff * ((\<bar>ar * bi\<bar> + \<bar>ai * br\<bar>) * \<bar>br\<bar> + (\<bar>ar * br\<bar> + \<bar>ai * bi\<bar>) * \<bar>bi\<bar>)"
    using hQ Q hP P v(5,6) by (rule numerator_bound) (simp_all add: v(7))
  moreover have "(ar * bi + ai * br) * br + (- 1) * ((ar * br - ai * bi) * bi) = ai * D"
    by (simp add: D_def algebra_simps)
  ultimately have n2: "\<bar>ni - ai * D\<bar>
          \<le> 41 / 10 * unit_roundoff * ((\<bar>ar * bi\<bar> + \<bar>ai * br\<bar>) * \<bar>br\<bar> + (\<bar>ar * br\<bar> + \<bar>ai * bi\<bar>) * \<bar>bi\<bar>)"
    by (simp add: ni_def)
  have "(\<bar>ar * bi\<bar> + \<bar>ai * br\<bar>) * \<bar>br\<bar> + (\<bar>ar * br\<bar> + \<bar>ai * bi\<bar>) * \<bar>bi\<bar> \<le> A * D"
    using weighted_sizes [of ai br ar bi] by (simp add: A_def D_def add.commute)
  then have "41 / 10 * unit_roundoff * ((\<bar>ar * bi\<bar> + \<bar>ai * br\<bar>) * \<bar>br\<bar> + (\<bar>ar * br\<bar> + \<bar>ai * bi\<bar>) * \<bar>bi\<bar>)
          \<le> 41 / 10 * unit_roundoff * (A * D)"
    using unit_roundoff_pos by (intro mult_left_mono) simp_all
  with n2 have nI: "\<bar>ni - ai * D\<bar> \<le> 41 / 10 * unit_roundoff * (A * D)" by linarith
  have xi: "\<bar>ai\<bar> \<le> A" by (simp add: A_def)
  have I: "\<bar>fl (ni / d) - ai\<bar> \<le> 8 * unit_roundoff * A"
    using nI dD xi Dpos by (rule quotient_bound) (simp add: ni_def v(8))
  have "Complex_div_fl fl (Cnum pr pi) b = Inr (Cnum (fl (nr / d)) (fl (ni / d)))"
    using ng by (simp add: Complex_div_fl_def Let_def d_def nr_def ni_def br_def bi_def)
  then show ?thesis
    using R I unfolding mul by (simp add: A_def ar_def ai_def)
qed

lemma unit_roundoff_upper: "unit_roundoff \<le> 12 / 10 ^ 17"
  by (simp add: unit_roundoff_def)

lemma equals_fl_bound:
  assumes e: "list_all (rnd_ok fl) (equals_roundings c a)"
    and r: "\<bar>re c - re a\<bar> \<le> 8 * unit_roundoff * (\<bar>re a\<bar> + \<bar>im a\<bar>)"
    and i: "\<bar>im c - im a\<bar> \<le> 8 * unit_roundoff * (\<bar>re a\<bar> + \<bar>im a\<bar>)"
    and A: "\<bar>re a\<bar> + \<bar>im a\<bar> \<le> 10 ^ 5"
  shows "Complex_equals_fl fl c a (fl (1 / 10 ^ 10))"
proof -
  define u where "u = unit_roundoff"
  have u0: "0 < u" and u1: "u \<le> 12 / 10 ^ 17" and u2: "u \<le> 1 / 10 ^ 15"
    using unit_roundoff_pos unit_roundoff_upper unit_roundoff_small by (simp_all add: u_def)
  have "u * (\<bar>re a\<bar> + \<bar>im a\<bar>) \<le> (12 / 10 ^ 17) * 10 ^ 5"
    using u1 A u0 by (intro mult_mono) simp_all
  then have b: "8 * unit_roundoff * (\<bar>re a\<bar> + \<bar>im a\<bar>) \<le> 96 / 10 ^ 12"
    by (simp add: u_def)
  have rr: "\<bar>re c - re a\<bar> \<le> 96 / 10 ^ 12" using r b by linarith
  have ii: "\<bar>im c - im a\<bar> \<le> 96 / 10 ^ 12" using i b by linarith
  have "rnd_ok fl (1 / 10 ^ 10)" using e by (simp add: equals_roundings_def)
  then have "\<bar>fl (1 / 10 ^ 10) - 1 / 10 ^ 10\<bar> \<le> u * (1 / 10 ^ 10)"
    by (simp add: rnd_ok_def u_def)
  moreover have "u * (1 / 10 ^ 10) \<le> (1 / 10 ^ 15) * (1 / 10 ^ 10)"
    using u2 by (rule mult_right_mono) simp
  ultimately have eps: "1 / 10 ^ 10 - (1 / 10 ^ 15) * (1 / 10 ^ 10) \<le> fl (1 / 10 ^ 10)"
    by linarith
  have k: "\<bar>fl x\<bar> < fl (1 / 10 ^ 10)" if x: "rnd_ok fl x" "\<bar>x\<bar> \<le> 96 / 10 ^ 12" for x
  proof -
    have "\<bar>fl x - x\<bar> \<le> u * \<bar>x\<bar>" using x(1) by (simp add: rnd_ok_def u_def)
    moreover have "u * \<bar>x\<bar> \<le> (1 / 10 ^ 15) * \<bar>x\<bar>" using u2 by (rule mult_right_mono) simp
    ultimately have "\<bar>fl x\<bar> \<le> \<bar>x\<bar> + (1 / 10 ^ 15) * \<bar>x\<bar>" by linarith
    then show ?thesis using x(2) eps by simp
  qed
  have "rnd_ok fl (re c - re a)" "rnd_ok fl (im c - im a)"
    using e by (simp_all add: equals_roundings_def)
  then show ?thesis using k rr ii by (simp add: Complex_equals_fl_def)
qed

text \<open>
  C7 (counterexample).  The guard of \<open>div\<close> compares the squared magnitude of the
  divisor, as computed, with \<open>1e-15\<close>.  A divisor of magnitude \<open>1e-9\<close> is above \<open>1e-10\<close>
  and its square \<open>1e-18\<close> is below the guard: under no rounding function whose four
  roundings in the guard keep the relative error bound does \<open>a.mul(b).div(b)\<close> return a
  value.
\<close>

theorem C7_counterexample:
  "Complex_abs (Cnum (1 / 10 ^ 9) 0) > 1 / 10 ^ 10 \<and>
   \<not> (\<exists>fl. list_all (rnd_ok fl) (div_guard_roundings fl (Cnum (1 / 10 ^ 9) 0)) \<and>
        (\<exists>c. Complex_div_fl fl (Complex_mul_fl fl (Cnum 1 0) (Cnum (1 / 10 ^ 9) 0))
                (Cnum (1 / 10 ^ 9) 0) = Inr c))"
proof -
  have a: "Complex_abs (Cnum (1 / 10 ^ 9) 0) = 1 / 10 ^ 9" by (simp add: Complex_abs_real)
  have s: "(Complex_abs (Cnum (1 / 10 ^ 9) 0))\<^sup>2 \<le> (1 - 1 / 10 ^ 6) / 10 ^ 15"
    unfolding a by (simp add: power2_eq_square)
  show ?thesis using div_fl_raises [OF _ s] unfolding a by auto
qed

text \<open>
  C7 (amended).  In binary64 arithmetic, for all complex \<open>a\<close> and \<open>b\<close> such that every
  rounding of the run commits a relative error of at most \<open>2\<^sup>-\<^sup>5\<^sup>3\<close> (no overflow, no
  underflow): if \<open>|b|\<^sup>2 \<ge> 1.000001e-15\<close>, \<open>a.mul(b).div(b)\<close> does not throw and each
  component of its value differs from that of \<open>a\<close> by at most
  \<open>8 \<cdot> 2\<^sup>-\<^sup>5\<^sup>3 \<cdot> (|re a| + |im a|)\<close>, so that the value is equal to \<open>a\<close> under \<open>equals\<close> with
  the default tolerance \<open>1e-10\<close> whenever \<open>|re a| + |im a| \<le> 1e5\<close>; if
  \<open>|b|\<^sup>2 \<le> 0.999999e-15\<close>, it throws the division-by-zero error.
\<close>

theorem C7_mul_div_roundtrip:
  "(list_all (rnd_ok fl)
      (mul_roundings fl a b @ div_guard_roundings fl b @
       div_value_roundings fl (Complex_mul_fl fl a b) b) \<and>
    (1 + 1 / 10 ^ 6) / 10 ^ 15 \<le> (Complex_abs b)\<^sup>2 \<longrightarrow>
      (\<exists>c. Complex_div_fl fl (Complex_mul_fl fl a b) b = Inr c \<and>
           \<bar>re c - re a\<bar> \<le> 8 * unit_roundoff * (\<bar>re a\<bar> + \<bar>im a\<bar>) \<and>
           \<bar>im c - im a\<bar> \<le> 8 * unit_roundoff * (\<bar>re a\<bar> + \<bar>im a\<bar>) \<and>
           (list_all (rnd_ok fl) (equals_roundings c a) \<and> \<bar>re a\<bar> + \<bar>im a\<bar> \<le> 10 ^ 5 \<longrightarrow>
              Complex_equals_fl fl c a (fl (1 / 10 ^ 10))))) \<and>
   (list_all (rnd_ok fl) (div_guard_roundings fl b) \<and>
    (Complex_abs b)\<^sup>2 \<le> (1 - 1 / 10 ^ 6) / 10 ^ 15 \<longrightarrow>
      Complex_div_fl fl (Complex_mul_fl fl a b) b = Inl DivisionByZero)"
proof (intro conjI impI)
  assume h: "list_all (rnd_ok fl)
      (mul_roundings fl a b @ div_guard_roundings fl b @
       div_value_roundings fl (Complex_mul_fl fl a b) b) \<and>
    (1 + 1 / 10 ^ 6) / 10 ^ 15 \<le> (Complex_abs b)\<^sup>2"
  then obtain c where c: "Complex_div_fl fl (Complex_mul_fl fl a b) b = Inr c"
      "\<bar>re c - re a\<bar> \<le> 8 * unit_roundoff * (\<bar>re a\<bar> + \<bar>im a\<bar>)"
      "\<bar>im c - im a\<bar> \<le> 8 * unit_roundoff * (\<bar>re a\<bar> + \<bar>im a\<bar>)"
    using div_fl_roundtrip [of fl a b] by blast
  show "\<exists>c. Complex_div_fl fl (Complex_mul_fl fl a b) b = Inr c \<and>
           \<bar>re c - re a\<bar> \<le> 8 * unit_roundoff * (\<bar>re a\<bar> + \<bar>im a\<bar>) \<and>
           \<bar>im c - im a\<bar> \<le> 8 * unit_roundoff * (\<bar>re a\<bar> + \<bar>im a\<bar>) \<and>
           (list_all (rnd_ok fl) (equals_roundings c a) \<and> \<bar>re a\<bar> + \<bar>im a\<bar> \<le> 10 ^ 5 \<longrightarrow>
              Complex_equals_fl fl c a (fl (1 / 10 ^ 10)))"
    using c equals_fl_bound [of fl c a] by blast
next
  assume "list_all (rnd_ok fl) (div_guard_roundings fl b) \<and>
    (Complex_abs b)\<^sup>2 \<le> (1 - 1 / 10 ^ 6) / 10 ^ 15"
  then show "Complex_div_fl fl (Complex_mul_fl fl a b) b = Inl DivisionByZero"
    using div_fl_raises [of fl b "Complex_mul_fl fl a b"] by blast
qed

theorem C7_mul_div_roundtrip_witness:
  "list_all (rnd_ok fl_example)
      (mul_roundings fl_example (Cnum 2 3) (Cnum 1 (- 1)) @
       div_guard_roundings fl_example (Cnum 1 (- 1)) @
       div_value_roundings fl_example (Complex_mul_fl fl_example (Cnum 2 3) (Cnum 1 (- 1)))
         (Cnum 1 (- 1))) \<and>
   (1 + 1 / 10 ^ 6) / 10 ^ 15 \<le> (Complex_abs (Cnum 1 (- 1)))\<^sup>2 \<and>
   (\<exists>c. Complex_div_fl fl_example (Complex_mul_fl fl_example (Cnum 2 3) (Cnum 1 (- 1)))
          (Cnum 1 (- 1)) = Inr c \<and>
        \<bar>re c - 2\<bar> \<le> 8 * unit_roundoff * 5 \<and> \<bar>im c - 3\<bar> \<le> 8 * unit_roundoff * 5 \<and>
        list_all (rnd_ok fl_example) (equals_roundings c (Cnum 2 3)) \<and>
        Complex_equals_fl fl_example c (Cnum 2 3) (fl_example (1 / 10 ^ 10))) \<and>
   list_all (rnd_ok fl_example) (div_guard_roundings fl_example (Cnum (3 / 10 ^ 8) 0)) \<and>
   (Complex_abs (Cnum (3 / 10 ^ 8) 0))\<^sup>2 \<le> (1 - 1 / 10 ^ 6) / 10 ^ 15 \<and>
   Complex_div_fl fl_example (Complex_mul_fl fl_example (Cnum 2 3) (Cnum (3 / 10 ^ 8) 0))
     (Cnum (3 / 10 ^ 8) 0) = Inl DivisionByZero"
proof -
  have h1: "list_all (rnd_ok fl_example)
      (mul_roundings fl_example (Cnum 2 3) (Cnum 1 (- 1)) @
       div_guard_roundings fl_example (Cnum 1 (- 1)) @
       div_value_roundings fl_example (Complex_mul_fl fl_example (Cnum 2 3) (Cnum 1 (- 1)))
         (Cnum 1 (- 1)))"
    by (simp only: mul_roundings_def div_guard_roundings_def div_value_roundings_def Let_def
          list.pred_inject append.simps rnd_ok_example simp_thms)
  have h2: "(1 + 1 / 10 ^ 6) / 10 ^ 15 \<le> (Complex_abs (Cnum 1 (- 1)))\<^sup>2"
    by (simp add: Complex_abs_power2)
  have h3: "list_all (rnd_ok fl_example) (div_guard_roundings fl_example (Cnum (3 / 10 ^ 8) 0))"
    by (simp only: div_guard_roundings_def list.pred_inject rnd_ok_example simp_thms)
  have h4: "(Complex_abs (Cnum (3 / 10 ^ 8) 0))\<^sup>2 \<le> (1 - 1 / 10 ^ 6) / 10 ^ 15"
    by (simp add: Complex_abs_power2)
  have h5: "list_all (rnd_ok fl_example) (equals_roundings c (Cnum 2 3))" for c
    by (simp only: equals_roundings_def list.pred_inject rnd_ok_example simp_thms)
  show ?thesis
    using h1 h2 h3 h4 h5
      C7_mul_div_roundtrip [of fl_example "Cnum 2 3" "Cnum 1 (- 1)"]
      C7_mul_div_roundtrip [of fl_example "Cnum 2 3" "Cnum (3 / 10 ^ 8) 0"]
    by simp
qed

section \<open>The two-state shortcut of the gate catalogue\<close>

lemma QuantumState_zero_eval: "QuantumState_zero = \<lparr>alpha = Cnum 1 0, beta = Cnum 0 0\<rparr>"
  by (simp add: QuantumState_zero_def QuantumState_new_def QuantumState_normalize_def
        Complex_abs_real)

lemma QuantumState_plus_eval:
  "QuantumState_plus = \<lparr>alpha = Cnum (1 / sqrt 2) 0, beta = Cnum (1 / sqrt 2) 0\<rparr>"
  by (simp add: QuantumState_plus_def QuantumState_new_def QuantumState_normalize_def
        Complex_abs_real Let_def)

lemma QuantumState_new_half:
  "QuantumState_new (Cnum (1 / 2) 0) (Cnum (1 / 2) 0) =
     \<lparr>alpha = Cnum (1 / sqrt 2) 0, beta = Cnum (1 / sqrt 2) 0\<rparr>"
proof -
  have n: "sqrt (Complex_abs (Cnum (1 / 2) 0) * Complex_abs (Cnum (1 / 2) 0) +
                 Complex_abs (Cnum (1 / 2) 0) * Complex_abs (Cnum (1 / 2) 0)) = 1 / sqrt 2"
    by (simp add: Complex_abs_real sqrt_half)
  show ?thesis
    unfolding QuantumState_new_def QuantumState_normalize_def Let_def
    by (simp only: n inv_sqrt2_not_tiny if_False QuantumState.simps Complex_num.sel
          half_div_inv_sqrt2) simp
qed

lemma CNOT_apply: "QuantumMatrix_apply QuantumGates_CNOT [v0, v1, v2, v3] = Inr [v0, v1, v3, v2]"
  by (cases v0; cases v1; cases v2; cases v3)
     (simp add: QuantumMatrix_apply_def QuantumGates_CNOT_def QuantumMatrix_new_def upt_0_4
        Complex_add_def Complex_mul_def Complex_ZERO_def Complex_ONE_def)

text \<open>On \<open>|+\<rangle>\<close> and \<open>|0\<rangle>\<close> the shortcut returns \<open>|+\<rangle>\<close> twice, whose tensor
  product is the uniform vector; the CNOT matrix applied to the tensor product of the
  inputs is the Bell vector.\<close>

lemma shortcut_plus_zero:
  "QuantumGates_applyTwoQubitGate QuantumState_plus QuantumState_zero QuantumGates_CNOT =
     Inr (\<lparr>alpha = Cnum (1 / sqrt 2) 0, beta = Cnum (1 / sqrt 2) 0\<rparr>,
          \<lparr>alpha = Cnum (1 / sqrt 2) 0, beta = Cnum (1 / sqrt 2) 0\<rparr>)"
proof -
  have "QuantumGates_applyTwoQubitGate QuantumState_plus QuantumState_zero QuantumGates_CNOT =
    Inr (QuantumState_new (Cnum (1 / 2) 0) (Cnum (1 / 2) 0),
         QuantumState_new (Cnum (1 / 2) 0) (Cnum (1 / 2) 0))"
    by (simp add: QuantumGates_applyTwoQubitGate_def QuantumState_plus_eval
          QuantumState_zero_eval CNOT_apply bind_e_def Let_def Complex_mul_def Complex_abs_real)
  then show ?thesis by (simp only: QuantumState_new_half)
qed

lemma CNOT_on_plus_zero:
  "QuantumMatrix_apply QuantumGates_CNOT
     (ComplexUtils_tensorProduct [alpha QuantumState_plus, beta QuantumState_plus]
        [alpha QuantumState_zero, beta QuantumState_zero])
   = Inr [Cnum (1 / sqrt 2) 0, Cnum 0 0, Cnum 0 0, Cnum (1 / sqrt 2) 0]"
  by (simp add: ComplexUtils_tensorProduct_def QuantumState_plus_eval QuantumState_zero_eval
        CNOT_apply Complex_mul_def)

text \<open>
  C10.  For the input pair \<open>|+\<rangle>\<close>, \<open>|0\<rangle>\<close>, \<open>QuantumGates.applyTwoQubitGate\<close> with the
  CNOT matrix returns two single-qubit states whose tensor product differs from the
  4-amplitude vector that the CNOT matrix gives on the tensor product of the inputs.
\<close>

theorem C10_shortcut_not_entangled:
  "\<exists>s1 s2 v.
     QuantumGates_applyTwoQubitGate QuantumState_plus QuantumState_zero QuantumGates_CNOT
       = Inr (s1, s2) \<and>
     QuantumMatrix_apply QuantumGates_CNOT
       (ComplexUtils_tensorProduct [alpha QuantumState_plus, beta QuantumState_plus]
          [alpha QuantumState_zero, beta QuantumState_zero]) = Inr v \<and>
     ComplexUtils_tensorProduct [alpha s1, beta s1] [alpha s2, beta s2] \<noteq> v"
  unfolding shortcut_plus_zero CNOT_on_plus_zero
  by (simp add: ComplexUtils_tensorProduct_def Complex_mul_def)

section \<open>The W-state constructor\<close>

lemma QuantumRegister_new_2:
  "QuantumRegister_new 2 =
     Inr \<lparr>numQubits = 2, dimension = 4,
          amplitudes = [Complex_ONE, Complex_ZERO, Complex_ZERO, Complex_ZERO]\<rparr>"
  by (simp add: QuantumRegister_new_def QuantumRegister_initialize_def replicate_4)

text \<open>The loop of \<open>createWState\<close> writes only indices \<open>2\<^sup>k \<ge> 1\<close>, so for every
  \<open>n\<close> in \<open>[1, 20]\<close> the amplitude 1 that the constructor put at index 0 is still there
  when it returns.\<close>

lemma setAmplitude_nat:
  "k < dimension reg \<Longrightarrow>
   setAmplitude reg (int k) amp = Inr (reg\<lparr>amplitudes := (amplitudes reg)[k := amp]\<rparr>)"
  by (simp add: setAmplitude_def)

lemma createWState_loop_keeps_index_0:
  assumes "dimension reg = 2 ^ n" "length (amplitudes reg) = 2 ^ n" "amplitudes reg ! 0 = Complex_ONE"
    and "\<forall>i\<in>set xs. i < n"
  shows "\<exists>reg'. foldM_e (\<lambda>reg i. setAmplitude reg (int (push_bit (n - 1 - i) (1::nat))) amp) reg xs
                  = Inr reg' \<and> amplitudes reg' ! 0 = Complex_ONE"
  using assms
proof (induction xs arbitrary: reg)
  case Nil
  then show ?case by simp
next
  case (Cons i xs)
  have i: "i < n" using Cons.prems(4) by simp
  let ?k = "push_bit (n - 1 - i) (1::nat)"
  have k0: "?k \<noteq> 0" by (simp add: push_bit_eq_mult)
  have "(2::nat) ^ (n - 1 - i) < 2 ^ n" using i by (simp add: power_strict_increasing)
  then have kd: "?k < 2 ^ n" by (simp add: push_bit_eq_mult)
  let ?reg = "reg\<lparr>amplitudes := (amplitudes reg)[?k := amp]\<rparr>"
  have s: "setAmplitude reg (int ?k) amp = Inr ?reg"
    using kd Cons.prems(1) by (intro setAmplitude_nat) simp
  have "\<exists>reg'. foldM_e (\<lambda>reg i. setAmplitude reg (int (push_bit (n - 1 - i) (1::nat))) amp) ?reg xs
                  = Inr reg' \<and> amplitudes reg' ! 0 = Complex_ONE"
    using Cons.prems k0 by (intro Cons.IH) simp_all
  then show ?case by (simp only: foldM_e.simps s sum.case)
qed

lemma createWState_index_0:
  assumes "1 \<le> n" "n \<le> 20"
  shows "\<exists>reg. createWState n = Inr reg \<and> amplitudes reg ! 0 = Complex_ONE"
proof -
  let ?r = "QuantumRegister_initialize \<lparr>numQubits = nat n, dimension = 2 ^ nat n, amplitudes = []\<rparr>"
  have new: "QuantumRegister_new n = Inr ?r" using assms by (simp add: QuantumRegister_new_def)
  have "\<exists>reg'. foldM_e (\<lambda>reg i. setAmplitude reg (int (push_bit (nat n - 1 - i) (1::nat)))
                              (Cnum (1 / sqrt (real_of_int n)) 0)) ?r [0..<nat n]
                  = Inr reg' \<and> amplitudes reg' ! 0 = Complex_ONE"
    by (rule createWState_loop_keeps_index_0[where n = "nat n"])
       (simp_all add: QuantumRegister_initialize_def)
  then show ?thesis
    by (simp add: createWState_def new bind_e_Inr Let_def)
qed

text \<open>
  C8 (the code at \<open>n = 2\<close>).  \<open>createWState(2)\<close> writes \<open>1/\<surd>2\<close> at indices 2 and 1
  and never touches index 0, which keeps the amplitude 1 that the constructor put
  there: the result is \<open>(1, 1/\<surd>2, 1/\<surd>2, 0)\<close>, not the W-state \<open>(0, 1/\<surd>2, 1/\<surd>2, 0)\<close>.
\<close>

theorem C8_createWState_2:
  "createWState 2 =
     Inr \<lparr>numQubits = 2, dimension = 4,
          amplitudes = [Cnum 1 0, Cnum (1 / sqrt 2) 0, Cnum (1 / sqrt 2) 0, Cnum 0 0]\<rparr>"
  by (simp add: createWState_def QuantumRegister_new_2 bind_e_def upt_0_2 setAmplitude_def
        list_update_Cons_numeral Complex_ONE_def Complex_ZERO_def Let_def)

section \<open>Measurement of the whole register\<close>

lemma measureAll_scan_None_iff:
  "measureAll_scan random c i ps = None \<longleftrightarrow>
     (\<forall>k<length ps. c + sum_list (take (Suc k) ps) \<le> random)"
proof (induction ps arbitrary: c i)
  case Nil
  then show ?case by simp
next
  case (Cons p ps)
  show ?case
  proof (cases "random < c + p")
    case True
    then have "\<not> (\<forall>k<length (p # ps). c + sum_list (take (Suc k) (p # ps)) \<le> random)"
      by (auto intro!: exI[of _ 0])
    with True show ?thesis by (simp add: Let_def)
  next
    case False
    have "(\<forall>k<length (p # ps). c + sum_list (take (Suc k) (p # ps)) \<le> random) \<longleftrightarrow>
          (\<forall>k<length ps. (c + p) + sum_list (take (Suc k) ps) \<le> random)"
      (is "?L \<longleftrightarrow> ?R")
    proof
      assume l: ?L
      show ?R
      proof (intro allI impI)
        fix k assume "k < length ps"
        then have "Suc k < length (p # ps)" by simp
        from l[rule_format, OF this] show "c + p + sum_list (take (Suc k) ps) \<le> random"
          by (simp add: add.assoc)
      qed
    next
      assume r: ?R
      show ?L
      proof (intro allI impI)
        fix k assume k: "k < length (p # ps)"
        show "c + sum_list (take (Suc k) (p # ps)) \<le> random"
        proof (cases k)
          case 0
          with False show ?thesis by simp
        next
          case (Suc j)
          with k have "j < length ps" by simp
          from r[rule_format, OF this] Suc show ?thesis by (simp add: add.assoc)
        qed
      qed
    qed
    with False Cons.IH[of "c + p" "Suc i"] show ?thesis by (simp add: Let_def)
  qed
qed

text \<open>
  C6 (counterexample).  On the one-qubit register \<open>(1/2, 0)\<close> (reached by
  \<open>setAmplitude(0, 0.5)\<close>) with the sample
  \<open>1/2\<close> the cumulative sums are \<open>1/4, 1/4\<close>: the loop runs off the end, and
  \<open>measureAll\<close> returns 0, which is not the last index \<open>2\<^sup>1 - 1 = 1\<close>.
\<close>

theorem C6_counterexample:
  "measureAll_scan (1 / 2) 0 0
     (getAllProbabilities \<lparr>numQubits = 1, dimension = 2,
                             amplitudes = [Cnum (1 / 2) 0, Cnum 0 0]\<rparr>) = None \<and>
   sum_list (getAllProbabilities \<lparr>numQubits = 1, dimension = 2,
                             amplitudes = [Cnum (1 / 2) 0, Cnum 0 0]\<rparr>) = 1 / 4 \<and>
   fst (measureAll \<lparr>numQubits = 1, dimension = 2,
                     amplitudes = [Cnum (1 / 2) 0, Cnum 0 0]\<rparr> (1 / 2))
     \<noteq> 2 ^ numQubits \<lparr>numQubits = 1, dimension = 2,
                          amplitudes = [Cnum (1 / 2) 0, Cnum 0 0]\<rparr> - 1"
  by (simp add: measureAll_def getAllProbabilities_def Complex_abs_real)

text \<open>
  C6 (amended).  For every register whose amplitude array has \<open>dimension\<close> entries, when
  no cumulative sum of the probabilities (in index order) exceeds the sample,
  \<open>measureAll\<close> does not fail: it resets the register to \<open>|0\<dots>0\<rangle>\<close> and returns index 0.
\<close>

theorem C6_measureAll_fallback:
  assumes "\<forall>k<dimension reg. sum_list (take (Suc k) (getAllProbabilities reg)) \<le> random"
    and "length (amplitudes reg) = dimension reg"
  shows "measureAll reg random =
           (0, reg\<lparr>amplitudes := (replicate (dimension reg) Complex_ZERO)[0 := Complex_ONE]\<rparr>)"
proof -
  have "length (getAllProbabilities reg) = dimension reg"
    using assms(2) by (simp add: getAllProbabilities_def)
  with assms(1) have "measureAll_scan random 0 0 (getAllProbabilities reg) = None"
    by (simp add: measureAll_scan_None_iff)
  then show ?thesis
    by (simp add: measureAll_def QuantumRegister_initialize_def)
qed

theorem C6_measureAll_fallback_witness:
  "measureAll \<lparr>numQubits = 1, dimension = 2, amplitudes = [Cnum (1 / 2) 0, Cnum 0 0]\<rparr> (1 / 2)
     = (0, \<lparr>numQubits = 1, dimension = 2, amplitudes = [Cnum 1 0, Cnum 0 0]\<rparr>)"
proof -
  let ?r = "\<lparr>numQubits = 1, dimension = 2, amplitudes = [Cnum (1 / 2) 0, Cnum 0 0]\<rparr>"
  have h1: "\<forall>k<dimension ?r. sum_list (take (Suc k) (getAllProbabilities ?r)) \<le> 1 / 2"
  proof (intro allI impI)
    fix k assume "k < dimension ?r"
    then have "k = 0 \<or> k = 1" by auto
    then show "sum_list (take (Suc k) (getAllProbabilities ?r)) \<le> 1 / 2"
      by (auto simp: getAllProbabilities_def Complex_abs_real)
  qed
  have h2: "length (amplitudes ?r) = dimension ?r" by simp
  show ?thesis
    using C6_measureAll_fallback [OF h1 h2]
    by (simp add: replicate_2 Complex_ONE_def Complex_ZERO_def)
qed

section \<open>Measurement of one qubit at zero conditional probability\<close>

text \<open>The sibling path: on the all-zero vector \<open>normalize()\<close> resets the register to
  \<open>|0\<rangle>\<close>.\<close>

lemma QuantumRegister_normalize_zero_vector:
  "QuantumRegister_normalize
     \<lparr>numQubits = 1, dimension = 2, amplitudes = [Cnum 0 0, Cnum 0 0]\<rparr>
   = \<lparr>numQubits = 1, dimension = 2, amplitudes = [Cnum 1 0, Cnum 0 0]\<rparr>"
  by (simp add: QuantumRegister_normalize_def ComplexUtils_normalize_def Complex_abs_real
        QuantumRegister_initialize_def replicate_2 Complex_ONE_def Complex_ZERO_def)

text \<open>
  C5 (the code at a failing input).  On the one-qubit register \<open>(1/2, 0)\<close> with the
  sample \<open>1/2\<close>, \<open>prob0 = 1/4\<close>, the outcome is 1 and its conditional probability is
  exactly zero.  \<open>measureQubit\<close> does not throw, and it leaves the all-zero vector
  \<open>(0, 0)\<close>: amplitude 0 at index 0, not the basis state \<open>|0\<rangle> = (1, 0)\<close>.
\<close>

theorem C5_measureQubit_zero_probability:
  "snd (measureQubit_collapse
          \<lparr>numQubits = 1, dimension = 2, amplitudes = [Cnum (1 / 2) 0, Cnum 0 0]\<rparr> 0 1) = 0 \<and>
   measureQubit \<lparr>numQubits = 1, dimension = 2, amplitudes = [Cnum (1 / 2) 0, Cnum 0 0]\<rparr>
       0 (1 / 2)
     = Inr (1, \<lparr>numQubits = 1, dimension = 2, amplitudes = [Cnum 0 0, Cnum 0 0]\<rparr>)"
  by (simp add: measureQubit_def measureQubit_prob0_def measureQubit_collapse_def upt_0_2
        Complex_abs_real Complex_ZERO_def)

section \<open>Gates on a two-qubit register, evaluated\<close>

lemma div_sqrt2_twice: "x / sqrt 2 / sqrt 2 = x / 2"
proof -
  have "sqrt 2 * sqrt 2 = 2" by simp
  then show ?thesis by (simp add: field_simps)
qed

lemma applySingleQubitGate_2_q0:
  "applySingleQubitGate \<lparr>numQubits = 2, dimension = 4, amplitudes = [a0, a1, a2, a3]\<rparr> g 0 =
   Inr \<lparr>numQubits = 2, dimension = 4, amplitudes =
     [Complex_add (Complex_add Complex_ZERO (Complex_mul (elements g ! 0 ! 0) a0))
                  (Complex_mul (elements g ! 0 ! 1) a1),
      Complex_add (Complex_add Complex_ZERO (Complex_mul (elements g ! 1 ! 0) a0))
                  (Complex_mul (elements g ! 1 ! 1) a1),
      Complex_add (Complex_add Complex_ZERO (Complex_mul (elements g ! 0 ! 0) a2))
                  (Complex_mul (elements g ! 0 ! 1) a3),
      Complex_add (Complex_add Complex_ZERO (Complex_mul (elements g ! 1 ! 0) a2))
                  (Complex_mul (elements g ! 1 ! 1) a3)]\<rparr>"
  by (simp add: applySingleQubitGate_def applySingleQubitGate_step_def upt_0_4 replicate_4
        list_update_Cons_numeral drop_bit_eq_div push_bit_eq_mult)

lemma applySingleQubitGate_2_q1:
  "applySingleQubitGate \<lparr>numQubits = 2, dimension = 4, amplitudes = [a0, a1, a2, a3]\<rparr> g 1 =
   Inr \<lparr>numQubits = 2, dimension = 4, amplitudes =
     [Complex_add (Complex_add Complex_ZERO (Complex_mul (elements g ! 0 ! 0) a0))
                  (Complex_mul (elements g ! 0 ! 1) a2),
      Complex_add (Complex_add Complex_ZERO (Complex_mul (elements g ! 0 ! 0) a1))
                  (Complex_mul (elements g ! 0 ! 1) a3),
      Complex_add (Complex_add Complex_ZERO (Complex_mul (elements g ! 1 ! 0) a0))
                  (Complex_mul (elements g ! 1 ! 1) a2),
      Complex_add (Complex_add Complex_ZERO (Complex_mul (elements g ! 1 ! 0) a1))
                  (Complex_mul (elements g ! 1 ! 1) a3)]\<rparr>"
  by (simp add: applySingleQubitGate_def applySingleQubitGate_step_def upt_0_4 replicate_4
        list_update_Cons_numeral drop_bit_eq_div push_bit_eq_mult)

lemma H_q0:
  "applySingleQubitGate
     \<lparr>numQubits = 2, dimension = 4,
      amplitudes = [Cnum x0 0, Cnum x1 0, Cnum x2 0, Cnum x3 0]\<rparr> QuantumGates_H 0 =
   Inr \<lparr>numQubits = 2, dimension = 4, amplitudes =
     [Cnum ((x0 + x1) / sqrt 2) 0, Cnum ((x0 - x1) / sqrt 2) 0,
      Cnum ((x2 + x3) / sqrt 2) 0, Cnum ((x2 - x3) / sqrt 2) 0]\<rparr>"
  by (simp add: applySingleQubitGate_2_q0 QuantumGates_H_def QuantumMatrix_new_def
        Complex_add_def Complex_mul_def Complex_ZERO_def Let_def
        add_divide_distrib diff_divide_distrib)

lemma H_q1:
  "applySingleQubitGate
     \<lparr>numQubits = 2, dimension = 4,
      amplitudes = [Cnum x0 0, Cnum x1 0, Cnum x2 0, Cnum x3 0]\<rparr> QuantumGates_H 1 =
   Inr \<lparr>numQubits = 2, dimension = 4, amplitudes =
     [Cnum ((x0 + x2) / sqrt 2) 0, Cnum ((x1 + x3) / sqrt 2) 0,
      Cnum ((x0 - x2) / sqrt 2) 0, Cnum ((x1 - x3) / sqrt 2) 0]\<rparr>"
  by (simp add: applySingleQubitGate_2_q1 QuantumGates_H_def QuantumMatrix_new_def
        Complex_add_def Complex_mul_def Complex_ZERO_def Let_def
        add_divide_distrib diff_divide_distrib)

lemma X_q1:
  "applySingleQubitGate
     \<lparr>numQubits = 2, dimension = 4,
      amplitudes = [Cnum x0 0, Cnum x1 0, Cnum x2 0, Cnum x3 0]\<rparr> QuantumGates_X 1 =
   Inr \<lparr>numQubits = 2, dimension = 4,
        amplitudes = [Cnum x2 0, Cnum x3 0, Cnum x0 0, Cnum x1 0]\<rparr>"
  by (simp add: applySingleQubitGate_2_q1 QuantumGates_X_def QuantumMatrix_new_def
        Complex_add_def Complex_mul_def Complex_ZERO_def Complex_ONE_def)

lemma H_H:
  "bind_e (applySingleQubitGate
             \<lparr>numQubits = 2, dimension = 4,
              amplitudes = [Cnum x0 0, Cnum x1 0, Cnum x2 0, Cnum x3 0]\<rparr> QuantumGates_H 0)
     (\<lambda>r. applySingleQubitGate r QuantumGates_H 1) =
   Inr \<lparr>numQubits = 2, dimension = 4, amplitudes =
     [Cnum ((x0 + x1 + x2 + x3) / 2) 0, Cnum ((x0 - x1 + x2 - x3) / 2) 0,
      Cnum ((x0 + x1 - x2 - x3) / 2) 0, Cnum ((x0 - x1 - x2 + x3) / 2) 0]\<rparr>"
  by (simp add: H_q0 H_q1 bind_e_def add_divide_distrib[symmetric]
        diff_divide_distrib[symmetric] div_sqrt2_twice)

lemma readAmplitudes_loop_2:
  "readAmplitudes_loop \<lparr>numQubits = 2, dimension = 4, amplitudes = [a0, a1, a2, a3]\<rparr>
     = Inr [a0, a1, a2, a3]"
  by (simp add: readAmplitudes_loop_def upt_0_4 getAmplitude_def bind_e_def)

lemma writeAmplitudes_loop_2:
  "writeAmplitudes_loop \<lparr>numQubits = 2, dimension = 4, amplitudes = [a0, a1, a2, a3]\<rparr>
       [b0, b1, b2, b3] =
   Inr \<lparr>numQubits = 2, dimension = 4, amplitudes = [b0, b1, b2, b3]\<rparr>"
  by (simp add: writeAmplitudes_loop_def upt_0_4 setAmplitude_def list_update_Cons_numeral)

section \<open>Grover's algorithm, target 2, one iteration\<close>

lemma applyGroverOracle_target_2:
  "applyGroverOracle
     \<lparr>numQubits = 2, dimension = 4,
      amplitudes = [Cnum x0 0, Cnum x1 0, Cnum x2 0, Cnum x3 0]\<rparr> 2 =
   Inr \<lparr>numQubits = 2, dimension = 4,
        amplitudes = [Cnum x0 0, Cnum x1 0, Cnum (- x2) 0, Cnum x3 0]\<rparr>"
  by (simp add: applyGroverOracle_def readAmplitudes_loop_2 bind_e_def QuantumMatrix_apply_def
        QuantumMatrix_new_def upt_0_4 writeAmplitudes_loop_2
        Complex_add_def Complex_mul_def Complex_ZERO_def Complex_ONE_def Let_def)

text \<open>The diffuser as coded sends \<open>x\<close> to \<open>x - (\<Sum>x)/2\<close>, componentwise: inversion about
  the mean up to the global sign.\<close>

lemma applyGroverDiffuser_2:
  "applyGroverDiffuser
     \<lparr>numQubits = 2, dimension = 4,
      amplitudes = [Cnum x0 0, Cnum x1 0, Cnum x2 0, Cnum x3 0]\<rparr> =
   Inr \<lparr>numQubits = 2, dimension = 4, amplitudes =
     [Cnum ((x0 - x1 - x2 - x3) / 2) 0, Cnum ((- x0 + x1 - x2 - x3) / 2) 0,
      Cnum ((- x0 - x1 + x2 - x3) / 2) 0, Cnum ((- x0 - x1 - x2 + x3) / 2) 0]\<rparr>"
proof -
  let ?r = "\<lparr>numQubits = 2, dimension = 4,
             amplitudes = [Cnum x0 0, Cnum x1 0, Cnum x2 0, Cnum x3 0]\<rparr>"
  have "applyGroverDiffuser ?r =
    bind_e (bind_e (applySingleQubitGate ?r QuantumGates_H 0)
              (\<lambda>r. applySingleQubitGate r QuantumGates_H 1)) (\<lambda>r2.
     bind_e (getAmplitude r2 0) (\<lambda>currentAmplitude.
     bind_e (setAmplitude r2 0 (Complex_mul currentAmplitude (Cnum (- 1) 0))) (\<lambda>r3.
     bind_e (applySingleQubitGate r3 QuantumGates_H 0) (\<lambda>r4.
     applySingleQubitGate r4 QuantumGates_H 1))))"
    by (simp add: applyGroverDiffuser_def bind_e_assoc)
  also have "\<dots> = bind_e (applySingleQubitGate \<lparr>numQubits = 2, dimension = 4, amplitudes =
       [Cnum (- ((x0 + x1 + x2 + x3) / 2)) 0, Cnum ((x0 - x1 + x2 - x3) / 2) 0,
        Cnum ((x0 + x1 - x2 - x3) / 2) 0, Cnum ((x0 - x1 - x2 + x3) / 2) 0]\<rparr> QuantumGates_H 0)
     (\<lambda>r4. applySingleQubitGate r4 QuantumGates_H 1)"
    by (simp add: H_H getAmplitude_def setAmplitude_def Complex_mul_def bind_e_Inr)
  also have "\<dots> = Inr \<lparr>numQubits = 2, dimension = 4, amplitudes =
     [Cnum ((x0 - x1 - x2 - x3) / 2) 0, Cnum ((- x0 + x1 - x2 - x3) / 2) 0,
      Cnum ((- x0 - x1 + x2 - x3) / 2) 0, Cnum ((- x0 - x1 - x2 + x3) / 2) 0]\<rparr>"
    by (simp add: H_H) (simp add: field_simps)
  finally show ?thesis .
qed

text \<open>The default iteration count \<open>\<lfloor>\<pi>/4 \<cdot> \<surd>4\<rfloor>\<close> is 1.\<close>

lemma grover_optimalIterations: "\<lfloor>pi / 4 * sqrt 4\<rfloor> = 1"
proof -
  have "2 \<le> pi" "pi < 4" using pi_ge_two pi_less_4 by simp_all
  then have "1 \<le> pi / 4 * sqrt 4" "pi / 4 * sqrt 4 < 2" by simp_all
  then show ?thesis by linarith
qed

text \<open>
  C9.  \<open>groverAlgorithm(2, 1)\<close> returns, whatever the sample of the final measurement.
  It records four steps: the uniform superposition, the state after the oracle (the
  amplitude of index 2 negated), the state \<open>(0, 0, -1, 0)\<close> after the diffuser with
  probabilities \<open>(0, 0, 1, 0)\<close>, and the measurement.  Its \<open>targetProbability\<close> is the
  probability of index 2 in the step recorded before the measurement step, and it is
  greater than \<open>0.25\<close>.
\<close>

theorem C9_grover_target_probability:
  "\<exists>r. groverAlgorithm 2 (Some 1) random = Inr r \<and>
       target r = 2 \<and> iterations r = 1 \<and> length (steps r) = 4 \<and>
       take 3 (steps r) =
         [\<lparr>step = 1, operation = ''H (x) H'',
           state = [Cnum (1 / 2) 0, Cnum (1 / 2) 0, Cnum (1 / 2) 0, Cnum (1 / 2) 0],
           probabilities = [1 / 4, 1 / 4, 1 / 4, 1 / 4]\<rparr>,
          \<lparr>step = 2, operation = ''oracle'',
           state = [Cnum (1 / 2) 0, Cnum (1 / 2) 0, Cnum (- (1 / 2)) 0, Cnum (1 / 2) 0],
           probabilities = [1 / 4, 1 / 4, 1 / 4, 1 / 4]\<rparr>,
          \<lparr>step = 3, operation = ''diffuser'',
           state = [Cnum 0 0, Cnum 0 0, Cnum (- 1) 0, Cnum 0 0],
           probabilities = [0, 0, 1, 0]\<rparr>] \<and>
       operation (steps r ! 3) = ''measure'' \<and>
       targetProbability r = probabilities (steps r ! (length (steps r) - 2)) ! target r \<and>
       targetProbability r > 25 / 100"
  by (simp add: groverAlgorithm_def QuantumRegister_new_2 bind_e_Inr Complex_ONE_def
        Complex_ZERO_def H_q0 H_q1 div_sqrt2_twice applyGroverOracle_target_2
        applyGroverDiffuser_2 getAllProbabilities_def Complex_abs_real Let_def split_def)

section \<open>Deutsch's algorithm\<close>

lemma measureQubit_2_q0_certain:
  assumes "x0 * x0 + x2 * x2 = 1" "random < 1"
  shows "measureQubit
           \<lparr>numQubits = 2, dimension = 4,
            amplitudes = [Cnum x0 0, Cnum x1 0, Cnum x2 0, Cnum x3 0]\<rparr> 0 random
    = Inr (0, \<lparr>numQubits = 2, dimension = 4,
                amplitudes = [Cnum x0 0, Cnum 0 0, Cnum x2 0, Cnum 0 0]\<rparr>)"
  using assms
  by (simp add: measureQubit_def measureQubit_prob0_def measureQubit_collapse_def upt_0_4
        Complex_abs_sq Complex_ZERO_def drop_bit_eq_div)

lemma applyDeutschOracle_balanced_identity:
  "applyDeutschOracle \<lparr>numQubits = 2, dimension = 4, amplitudes = [a0, a1, a2, a3]\<rparr>
       ''balanced-identity''
   = Inr \<lparr>numQubits = 2, dimension = 4, amplitudes = [a0, a1, a3, a2]\<rparr>"
  by (simp add: applyDeutschOracle_def bind_e_Inr readAmplitudes_loop_2 writeAmplitudes_loop_2
        CNOT_apply)

lemma applyDeutschOracle_balanced_not:
  "applyDeutschOracle
     \<lparr>numQubits = 2, dimension = 4,
      amplitudes = [Cnum x0 0, Cnum x1 0, Cnum x2 0, Cnum x3 0]\<rparr> ''balanced-not''
   = Inr \<lparr>numQubits = 2, dimension = 4,
          amplitudes = [Cnum x2 0, Cnum x3 0, Cnum x0 0, Cnum x1 0]\<rparr>"
  by (simp add: applyDeutschOracle_def bind_e_Inr X_q1)

text \<open>
  The register starts as \<open>(1, 1, 0, 0)\<close>: \<open>setAmplitude(1, ONE)\<close> leaves the constructor's
  amplitude at index 0 in place.  From there the amplitudes before the measurement
  have weight 1 on the states with qubit 0 clear, for every oracle, so every sample
  below 1 gives outcome 0.
\<close>

lemma deutsch_balanced_identity_every_run:
  "random < 1 \<Longrightarrow>
   \<exists>r. deutschAlgorithm ''balanced-identity'' random = Inr r \<and> measurementResult r = 0 \<and>
       interp r = Constant \<and> \<not> isCorrect r"
  by (simp add: deutschAlgorithm_def QuantumRegister_new_2 bind_e_Inr setAmplitude_def
        list_update_Cons_numeral Complex_ONE_def Complex_ZERO_def H_q0 H_q1 div_sqrt2_twice
        applyDeutschOracle_balanced_identity measureQubit_2_q0_certain checkDeutschResult_def
        Let_def)

lemma deutsch_balanced_not_every_run:
  "random < 1 \<Longrightarrow>
   \<exists>r. deutschAlgorithm ''balanced-not'' random = Inr r \<and> measurementResult r = 0 \<and>
       interp r = Constant \<and> \<not> isCorrect r"
  by (simp add: deutschAlgorithm_def QuantumRegister_new_2 bind_e_Inr setAmplitude_def
        list_update_Cons_numeral Complex_ONE_def Complex_ZERO_def H_q0 H_q1 div_sqrt2_twice
        applyDeutschOracle_balanced_not measureQubit_2_q0_certain checkDeutschResult_def
        Let_def)

text \<open>
  C2 (the code at a failing input).  With the sample \<open>1/2\<close>,
  \<open>deutschAlgorithm('balanced-identity')\<close> and \<open>deutschAlgorithm('balanced-not')\<close> both
  measure 0 and return the interpretation "constant", with \<open>isCorrect\<close> false.
\<close>

theorem C2_deutsch_balanced_misclassified:
  "(\<exists>r. deutschAlgorithm ''balanced-identity'' (1 / 2) = Inr r \<and> measurementResult r = 0 \<and>
        interp r = Constant \<and> isCorrect r = False) \<and>
   (\<exists>r. deutschAlgorithm ''balanced-not'' (1 / 2) = Inr r \<and> measurementResult r = 0 \<and>
        interp r = Constant \<and> isCorrect r = False)"
  using deutsch_balanced_identity_every_run [of "1 / 2"]
        deutsch_balanced_not_every_run [of "1 / 2"]
  by simp

section \<open>Algebra of the complex type and of bit flips\<close>

lemma Complex_add_commute: "Complex_add a b = Complex_add b a"
  by (simp add: Complex_add_def)

lemma Complex_add_assoc: "Complex_add (Complex_add a b) c = Complex_add a (Complex_add b c)"
  by (simp add: Complex_add_def)

lemma Complex_add_ZERO_left: "Complex_add Complex_ZERO a = a"
  by (simp add: Complex_add_def Complex_ZERO_def)

lemma Complex_add_ZERO_right: "Complex_add a Complex_ZERO = a"
  by (simp add: Complex_add_def Complex_ZERO_def)

lemma bit_test_eq: "and (drop_bit q (s::nat)) 1 = 0 \<longleftrightarrow> \<not> bit s q"
  by (simp add: and_one_eq bit_iff_odd_drop_bit even_iff_mod_2_eq_zero)

lemma bit_test_eq1: "and (drop_bit q (s::nat)) 1 = 1 \<longleftrightarrow> bit s q"
  by (simp add: and_one_eq bit_iff_odd_drop_bit odd_iff_mod_2_eq_one)

lemma xor_flip: "xor (s::nat) (push_bit q 1) = flip_bit q s"
  by (simp add: flip_bit_eq_xor)

lemma bit_flip_same: "bit (flip_bit q (s::nat)) q \<longleftrightarrow> \<not> bit s q"
  by (simp add: bit_flip_bit_iff)

lemma flip_flip: "flip_bit q (flip_bit q (s::nat)) = s"
  by (rule bit_eqI) (auto simp add: bit_flip_bit_iff)

lemma flip_neq: "flip_bit q (s::nat) \<noteq> s"
proof
  assume "flip_bit q s = s"
  then have "bit (flip_bit q s) q = bit s q" by simp
  then show False by (simp add: bit_flip_bit_iff)
qed

lemma flip_less: "q < n \<Longrightarrow> (s::nat) < 2 ^ n \<Longrightarrow> flip_bit q s < 2 ^ n"
proof -
  assume q: "q < n" and s: "s < 2 ^ n"
  have "take_bit n (flip_bit q s) = flip_bit q s"
    using q s by (simp add: take_bit_flip_bit_eq take_bit_nat_eq_self)
  then show ?thesis by (simp add: take_bit_nat_eq_self_iff)
qed

section \<open>A single-qubit gate on an n-qubit register\<close>

text \<open>The loop body adds the diagonal entry's contribution to the state's own slot and
  the off-diagonal entry's contribution to the slot of its partner.\<close>

lemma applySingleQubitGate_step_eq:
  "applySingleQubitGate_step g q old new s =
     (let n1 = new[s := Complex_add (new ! s) (Complex_mul (gate_diag g q s) (old ! s))]
      in n1[flip_bit q s := Complex_add (n1 ! flip_bit q s)
              (Complex_mul (gate_off g q (flip_bit q s)) (old ! s))])"
  unfolding applySingleQubitGate_step_def Let_def bit_test_eq xor_flip
  by (cases "bit s q") (simp_all only: gate_diag_def gate_off_def bit_flip_same if_True if_False simp_thms)

lemma applySingleQubitGate_fold_invariant:
  assumes q: "q < n" and k: "k \<le> 2 ^ n"
  shows "length (foldl (applySingleQubitGate_step g q old) (replicate (2 ^ n) Complex_ZERO) [0..<k]) = 2 ^ n \<and>
     (\<forall>s<2 ^ n. foldl (applySingleQubitGate_step g q old) (replicate (2 ^ n) Complex_ZERO) [0..<k] ! s =
        Complex_add (if s < k then Complex_mul (gate_diag g q s) (old ! s) else Complex_ZERO)
                    (if flip_bit q s < k then Complex_mul (gate_off g q s) (old ! flip_bit q s) else Complex_ZERO))"
  using k
proof (induction k)
  case 0
  show ?case by (simp add: Complex_add_ZERO_left)
next
  case (Suc k)
  let ?new = "foldl (applySingleQubitGate_step g q old) (replicate (2 ^ n) Complex_ZERO) [0..<k]"
  from Suc have kl: "k < 2 ^ n" by simp
  from Suc have len: "length ?new = 2 ^ n"
    and inv: "\<And>s. s < 2 ^ n \<Longrightarrow> ?new ! s =
        Complex_add (if s < k then Complex_mul (gate_diag g q s) (old ! s) else Complex_ZERO)
                    (if flip_bit q s < k then Complex_mul (gate_off g q s) (old ! flip_bit q s) else Complex_ZERO)"
    by simp_all
  have fl: "flip_bit q k < 2 ^ n" using q kl by (rule flip_less)
  have fk: "flip_bit q k \<noteq> k" by (rule flip_neq)
  have step: "foldl (applySingleQubitGate_step g q old) (replicate (2 ^ n) Complex_ZERO) [0..<Suc k]
     = applySingleQubitGate_step g q old ?new k"
    by simp
  show ?case
  proof (intro conjI allI impI)
    show "length (foldl (applySingleQubitGate_step g q old) (replicate (2 ^ n) Complex_ZERO) [0..<Suc k]) = 2 ^ n"
      unfolding step by (simp add: applySingleQubitGate_step_eq Let_def len)
  next
    fix s :: nat assume s: "s < 2 ^ n"
    consider (own) "s = k" | (cross) "s = flip_bit q k" | (other) "s \<noteq> k" "s \<noteq> flip_bit q k"
      by blast
    then show "foldl (applySingleQubitGate_step g q old) (replicate (2 ^ n) Complex_ZERO) [0..<Suc k] ! s =
        Complex_add (if s < Suc k then Complex_mul (gate_diag g q s) (old ! s) else Complex_ZERO)
                    (if flip_bit q s < Suc k then Complex_mul (gate_off g q s) (old ! flip_bit q s) else Complex_ZERO)"
    proof cases
      case own
      have "flip_bit q k < Suc k \<longleftrightarrow> flip_bit q k < k" using fk by auto
      then show ?thesis
        unfolding step using fk kl len inv[OF kl] own
        by (simp add: applySingleQubitGate_step_eq Let_def Complex_add_ZERO_left Complex_add_commute)
    next
      case cross
      have "\<not> k < k" by simp
      have "flip_bit q k < Suc k \<longleftrightarrow> flip_bit q k < k" using fk by auto
      then show ?thesis
        unfolding step using fk kl len inv[OF fl] cross fl
        by (simp add: applySingleQubitGate_step_eq Let_def Complex_add_ZERO_right flip_flip)
    next
      case other
      then have "flip_bit q s \<noteq> k" using flip_flip[of q s] by auto
      then have "flip_bit q s < Suc k \<longleftrightarrow> flip_bit q s < k" by auto
      moreover have "s < Suc k \<longleftrightarrow> s < k" using other by auto
      ultimately show ?thesis
        unfolding step using other inv[OF s]
        by (simp add: applySingleQubitGate_step_eq Let_def)
    qed
  qed
qed

lemma applySingleQubitGate_amplitudes:
  assumes wf: "QuantumRegister_wf reg" and q: "0 \<le> q" "q < int (numQubits reg)"
  shows "\<exists>reg'. applySingleQubitGate reg gate q = Inr reg' \<and>
           numQubits reg' = numQubits reg \<and> dimension reg' = dimension reg \<and>
           length (amplitudes reg') = dimension reg \<and>
           (\<forall>s<dimension reg. amplitudes reg' ! s =
               Complex_add (Complex_mul (gate_diag gate (nat q) s) (amplitudes reg ! s))
                           (Complex_mul (gate_off gate (nat q) s)
                              (amplitudes reg ! flip_bit (nat q) s)))"
proof -
  let ?n = "numQubits reg"
  let ?new = "foldl (applySingleQubitGate_step gate (nat q) (amplitudes reg))
                 (replicate (2 ^ ?n) Complex_ZERO) [0..<2 ^ ?n]"
  have d: "dimension reg = 2 ^ ?n" using wf by (simp add: QuantumRegister_wf_def)
  have qn: "nat q < ?n" using q by simp
  have inv: "length ?new = 2 ^ ?n \<and>
     (\<forall>s<2 ^ ?n. ?new ! s =
        Complex_add (if s < 2 ^ ?n then Complex_mul (gate_diag gate (nat q) s) (amplitudes reg ! s) else Complex_ZERO)
                    (if flip_bit (nat q) s < 2 ^ ?n then Complex_mul (gate_off gate (nat q) s) (amplitudes reg ! flip_bit (nat q) s) else Complex_ZERO))"
    by (rule applySingleQubitGate_fold_invariant[OF qn]) simp
  have app: "applySingleQubitGate reg gate q = Inr (reg\<lparr>amplitudes := ?new\<rparr>)"
    using q by (simp add: applySingleQubitGate_def d)
  have "\<forall>s<dimension reg. ?new ! s =
               Complex_add (Complex_mul (gate_diag gate (nat q) s) (amplitudes reg ! s))
                           (Complex_mul (gate_off gate (nat q) s)
                              (amplitudes reg ! flip_bit (nat q) s))"
  proof (intro allI impI)
    fix s assume s: "s < dimension reg"
    then have s': "s < 2 ^ ?n" by (simp add: d)
    have "flip_bit (nat q) s < 2 ^ ?n" using qn s' by (rule flip_less)
    with inv s' show "?new ! s =
               Complex_add (Complex_mul (gate_diag gate (nat q) s) (amplitudes reg ! s))
                           (Complex_mul (gate_off gate (nat q) s)
                              (amplitudes reg ! flip_bit (nat q) s))"
      by simp
  qed
  with app inv d show ?thesis by simp
qed

text \<open>
  C3.  For a well-formed register, a 2x2 matrix \<open>M\<close> and a qubit index \<open>q\<close>:
  if \<open>0 \<le> q < n\<close>, \<open>applySingleQubitGate(M, q)\<close> succeeds and, for every basis index \<open>s\<close>
  with bit \<open>q\<close> clear and its partner \<open>s XOR 2\<^sup>q\<close> (\<open>flip_bit q s\<close>), the new amplitude at
  \<open>s\<close> is \<open>M[0][0]\<cdot>a0 + M[0][1]\<cdot>a1\<close> and the new amplitude at the partner is
  \<open>M[1][0]\<cdot>a0 + M[1][1]\<cdot>a1\<close>, where \<open>a0\<close>, \<open>a1\<close> are the old amplitudes at \<open>s\<close> and at the
  partner; otherwise the call fails with the qubit-index-out-of-range error (and, the
  throw being the first statement, the register is as before).
\<close>

theorem C3_applySingleQubitGate:
  assumes "QuantumRegister_wf reg" "is_2x2 gate"
  shows "(0 \<le> q \<and> q < int (numQubits reg) \<longrightarrow>
           (\<exists>reg'. applySingleQubitGate reg gate q = Inr reg' \<and> QuantumRegister_wf reg' \<and>
              numQubits reg' = numQubits reg \<and>
              (\<forall>s<dimension reg. \<not> bit s (nat q) \<longrightarrow>
                 amplitudes reg' ! s =
                   Complex_add (Complex_mul (elements gate ! 0 ! 0) (amplitudes reg ! s))
                               (Complex_mul (elements gate ! 0 ! 1)
                                  (amplitudes reg ! flip_bit (nat q) s)) \<and>
                 amplitudes reg' ! flip_bit (nat q) s =
                   Complex_add (Complex_mul (elements gate ! 1 ! 0) (amplitudes reg ! s))
                               (Complex_mul (elements gate ! 1 ! 1)
                                  (amplitudes reg ! flip_bit (nat q) s))))) \<and>
         (\<not> (0 \<le> q \<and> q < int (numQubits reg)) \<longrightarrow>
            applySingleQubitGate reg gate q = Inl QubitIndexOutOfRange)"
proof (intro conjI impI)
  assume q: "0 \<le> q \<and> q < int (numQubits reg)"
  then have qn: "nat q < numQubits reg" by linarith
  have d: "dimension reg = 2 ^ numQubits reg" using assms(1) by (simp add: QuantumRegister_wf_def)
  from applySingleQubitGate_amplitudes[OF assms(1), of q gate] q
  obtain reg' where r: "applySingleQubitGate reg gate q = Inr reg'"
      "numQubits reg' = numQubits reg" "dimension reg' = dimension reg"
      "length (amplitudes reg') = dimension reg"
      and a: "\<And>s. s < dimension reg \<Longrightarrow> amplitudes reg' ! s =
               Complex_add (Complex_mul (gate_diag gate (nat q) s) (amplitudes reg ! s))
                           (Complex_mul (gate_off gate (nat q) s)
                              (amplitudes reg ! flip_bit (nat q) s))"
    by blast
  have wf': "QuantumRegister_wf reg'"
    using assms(1) r by (simp add: QuantumRegister_wf_def)
  have pair: "amplitudes reg' ! s =
                   Complex_add (Complex_mul (elements gate ! 0 ! 0) (amplitudes reg ! s))
                               (Complex_mul (elements gate ! 0 ! 1)
                                  (amplitudes reg ! flip_bit (nat q) s)) \<and>
                 amplitudes reg' ! flip_bit (nat q) s =
                   Complex_add (Complex_mul (elements gate ! 1 ! 0) (amplitudes reg ! s))
                               (Complex_mul (elements gate ! 1 ! 1)
                                  (amplitudes reg ! flip_bit (nat q) s))"
    if s: "s < dimension reg" and b: "\<not> bit s (nat q)" for s
  proof -
    have fl: "flip_bit (nat q) s < dimension reg"
      using flip_less[OF qn, of s] s by (simp add: d)
    have fb: "bit (flip_bit (nat q) s) (nat q)" using b by (simp add: bit_flip_same)
    show ?thesis
      using a[OF s] a[OF fl] b fb
      by (simp add: gate_diag_def gate_off_def flip_flip Complex_add_commute)
  qed
  show "\<exists>reg'. applySingleQubitGate reg gate q = Inr reg' \<and> QuantumRegister_wf reg' \<and>
              numQubits reg' = numQubits reg \<and>
              (\<forall>s<dimension reg. \<not> bit s (nat q) \<longrightarrow>
                 amplitudes reg' ! s =
                   Complex_add (Complex_mul (elements gate ! 0 ! 0) (amplitudes reg ! s))
                               (Complex_mul (elements gate ! 0 ! 1)
                                  (amplitudes reg ! flip_bit (nat q) s)) \<and>
                 amplitudes reg' ! flip_bit (nat q) s =
                   Complex_add (Complex_mul (elements gate ! 1 ! 0) (amplitudes reg ! s))
                               (Complex_mul (elements gate ! 1 ! 1)
                                  (amplitudes reg ! flip_bit (nat q) s)))"
    using r(1,2) wf' pair by blast
next
  assume "\<not> (0 \<le> q \<and> q < int (numQubits reg))"
  then show "applySingleQubitGate reg gate q = Inl QubitIndexOutOfRange"
    by (auto simp add: applySingleQubitGate_def)
qed

theorem C3_applySingleQubitGate_witness:
  "QuantumRegister_wf \<lparr>numQubits = 1, dimension = 2, amplitudes = [Cnum 1 0, Cnum 0 0]\<rparr> \<and>
   is_2x2 QuantumGates_X \<and>
   (\<exists>reg'. applySingleQubitGate
             \<lparr>numQubits = 1, dimension = 2, amplitudes = [Cnum 1 0, Cnum 0 0]\<rparr>
             QuantumGates_X 0 = Inr reg' \<and>
           amplitudes reg' ! 0 = Cnum 0 0 \<and> amplitudes reg' ! 1 = Cnum 1 0) \<and>
   applySingleQubitGate \<lparr>numQubits = 1, dimension = 2, amplitudes = [Cnum 1 0, Cnum 0 0]\<rparr>
     QuantumGates_X 1 = Inl QubitIndexOutOfRange"
proof -
  let ?r = "\<lparr>numQubits = 1, dimension = 2, amplitudes = [Cnum 1 0, Cnum 0 0]\<rparr>"
  have wf: "QuantumRegister_wf ?r" by (simp add: QuantumRegister_wf_def)
  have g: "is_2x2 QuantumGates_X"
    by (simp add: is_2x2_def QuantumGates_X_def QuantumMatrix_new_def)
  from C3_applySingleQubitGate [OF wf g, of 0]
  obtain reg' where a: "applySingleQubitGate ?r QuantumGates_X 0 = Inr reg'"
    and b: "\<forall>s<dimension ?r. \<not> bit s (nat 0) \<longrightarrow>
                 amplitudes reg' ! s =
                   Complex_add (Complex_mul (elements QuantumGates_X ! 0 ! 0) (amplitudes ?r ! s))
                               (Complex_mul (elements QuantumGates_X ! 0 ! 1)
                                  (amplitudes ?r ! flip_bit (nat 0) s)) \<and>
                 amplitudes reg' ! flip_bit (nat 0) s =
                   Complex_add (Complex_mul (elements QuantumGates_X ! 1 ! 0) (amplitudes ?r ! s))
                               (Complex_mul (elements QuantumGates_X ! 1 ! 1)
                                  (amplitudes ?r ! flip_bit (nat 0) s))"
    by auto
  from b[rule_format, of 0]
  have "amplitudes reg' ! 0 = Cnum 0 0 \<and> amplitudes reg' ! 1 = Cnum 1 0"
    by (simp add: QuantumGates_X_def QuantumMatrix_new_def Complex_add_def Complex_mul_def
          Complex_ZERO_def Complex_ONE_def)
  moreover from C3_applySingleQubitGate [OF wf g, of 1]
  have "applySingleQubitGate ?r QuantumGates_X 1 = Inl QubitIndexOutOfRange" by simp
  ultimately show ?thesis using wf g a by blast
qed

section \<open>Measurement of one qubit\<close>

lemma bit_test_bitval: "and (drop_bit q (s::nat)) 1 = bitval s q"
  by (simp add: bitval_def and_one_eq bit_iff_odd_drop_bit odd_iff_mod_2_eq_one)

lemma abs_sq_weight: "Complex_abs c * Complex_abs c = weight c"
  by (simp add: Complex_abs_def weight_def power2_eq_square)

lemma outcome_weight_if:
  "outcome_weight reg i r = (\<Sum>s<dimension reg. if bitval s i = r then weight (amplitudes reg ! s) else 0)"
proof -
  have "{s. s < dimension reg \<and> bitval s i = r} = {s \<in> {..<dimension reg}. bitval s i = r}"
    by auto
  then show ?thesis
    unfolding outcome_weight_def by (simp only: sum.inter_filter finite_lessThan)
qed

lemma prob0_fold:
  "foldl (\<lambda>prob0 state.
              if and (drop_bit q state) 1 = 0
              then prob0 + Complex_abs (a ! state) * Complex_abs (a ! state)
              else prob0) 0 [0..<k]
   = (\<Sum>s<k. if bitval s q = 0 then weight (a ! s) else 0)"
  by (induction k) (simp_all only: bit_test_bitval abs_sq_weight upt_Suc_append lessThan_Suc
       foldl_append foldl.simps upt_0 sum.empty lessThan_0 sum.insert_remove finite_lessThan
       le0 if_True, auto)

lemma measureQubit_prob0_eq: "measureQubit_prob0 reg q = outcome_weight reg q 0"
  by (simp only: measureQubit_prob0_def prob0_fold outcome_weight_if)

lemma collapse_fold:
  "foldl (\<lambda>(newAmplitudes, normalizationFactor) state.
              if and (drop_bit q state) 1 = r
              then (newAmplitudes @ [a ! state],
                    normalizationFactor + Complex_abs (a ! state) * Complex_abs (a ! state))
              else (newAmplitudes @ [Complex_ZERO], normalizationFactor))
           ([], 0) [0..<k]
   = (map (\<lambda>s. if bitval s q = r then a ! s else Complex_ZERO) [0..<k],
      \<Sum>s<k. if bitval s q = r then weight (a ! s) else 0)"
  unfolding bit_test_bitval abs_sq_weight
proof (induction k)
  case 0
  show ?case by simp
next
  case (Suc k)
  show ?case
    unfolding upt_Suc_append[OF le0] foldl_append Suc.IH
    by simp
qed

lemma measureQubit_collapse_eq:
  "measureQubit_collapse reg q r =
     (map (\<lambda>s. if bitval s q = r then amplitudes reg ! s else Complex_ZERO) [0..<dimension reg],
      outcome_weight reg q r)"
  by (simp only: measureQubit_collapse_def collapse_fold outcome_weight_if)

lemma outcome_weight_nonneg: "0 \<le> outcome_weight reg i r"
  unfolding outcome_weight_def weight_def by (rule sum_nonneg) simp

lemma measureQubit_unfold:
  assumes "0 \<le> i" "i < int (numQubits reg)"
  shows "measureQubit reg i random =
    (let r = (if random < outcome_weight reg (nat i) 0 then 0 else 1);
         p = outcome_weight reg (nat i) r;
         collapsed = map (\<lambda>s. if bitval s (nat i) = r then amplitudes reg ! s else Complex_ZERO)
                        [0..<dimension reg]
     in Inr (r, reg\<lparr>amplitudes :=
                 if p > 0 then map (\<lambda>a. Cnum (re a / sqrt p) (im a / sqrt p)) collapsed
                 else collapsed\<rparr>))"
  using assms
  by (simp add: measureQubit_def measureQubit_prob0_eq measureQubit_collapse_eq Let_def)

text \<open>
  C4.  For a well-formed register and an in-range qubit index \<open>i\<close>, \<open>measureQubit(i)\<close>
  returns an outcome \<open>r\<close> (0 or 1); when the weight \<open>p\<close> of that outcome before the
  measurement is nonzero, every amplitude whose bit \<open>i\<close> is \<open>r\<close> ends as the old amplitude
  divided by \<open>\<surd>p\<close> (real and imaginary part alike, so ratios and phases among the
  survivors are kept), and every other amplitude ends as zero.
\<close>

theorem C4_measureQubit_collapse:
  assumes "QuantumRegister_wf reg" "0 \<le> i" "i < int (numQubits reg)"
  shows "\<exists>r reg'. measureQubit reg i random = Inr (r, reg') \<and> (r = 0 \<or> r = 1) \<and>
           length (amplitudes reg') = dimension reg \<and>
           (outcome_weight reg (nat i) r \<noteq> 0 \<longrightarrow>
              (\<forall>s<dimension reg.
                 amplitudes reg' ! s =
                   (if bitval s (nat i) = r
                    then Cnum (re (amplitudes reg ! s) / sqrt (outcome_weight reg (nat i) r))
                              (im (amplitudes reg ! s) / sqrt (outcome_weight reg (nat i) r))
                    else Cnum 0 0)))"
proof -
  define r :: nat where "r = (if random < outcome_weight reg (nat i) 0 then 0 else 1)"
  define p where "p = outcome_weight reg (nat i) r"
  define collapsed where "collapsed =
     map (\<lambda>s. if bitval s (nat i) = r then amplitudes reg ! s else Complex_ZERO) [0..<dimension reg]"
  define reg' where "reg' = reg\<lparr>amplitudes :=
                 if p > 0 then map (\<lambda>a. Cnum (re a / sqrt p) (im a / sqrt p)) collapsed
                 else collapsed\<rparr>"
  have m: "measureQubit reg i random = Inr (r, reg')"
    using measureQubit_unfold[OF assms(2,3), of random]
    by (simp add: Let_def r_def p_def collapsed_def reg'_def)
  have r01: "r = 0 \<or> r = 1" by (simp add: r_def)
  have len: "length (amplitudes reg') = dimension reg"
    by (simp add: reg'_def collapsed_def)
  have amp: "amplitudes reg' ! s =
                   (if bitval s (nat i) = r
                    then Cnum (re (amplitudes reg ! s) / sqrt p) (im (amplitudes reg ! s) / sqrt p)
                    else Cnum 0 0)" if "p \<noteq> 0" "s < dimension reg" for s
  proof -
    have "p > 0" using that(1) outcome_weight_nonneg[of reg "nat i" r] by (simp add: p_def)
    then show ?thesis using that(2)
      by (simp add: reg'_def collapsed_def Complex_ZERO_def)
  qed
  show ?thesis
    using m r01 len amp unfolding p_def by blast
qed

lemma sum_lessThan_4: "(\<Sum>s<4. f s) = f 0 + f 1 + f 2 + (f (3::nat) :: real)"
  by (simp add: numeral_eq_Suc lessThan_Suc)

theorem C4_measureQubit_collapse_witness:
  "QuantumRegister_wf
     \<lparr>numQubits = 2, dimension = 4,
      amplitudes = [Cnum (3 / 5) 0, Cnum 0 0, Cnum 0 0, Cnum 0 (4 / 5)]\<rparr> \<and>
   (\<exists>r reg'. measureQubit
               \<lparr>numQubits = 2, dimension = 4,
                amplitudes = [Cnum (3 / 5) 0, Cnum 0 0, Cnum 0 0, Cnum 0 (4 / 5)]\<rparr>
               0 (1 / 2) = Inr (r, reg') \<and>
      outcome_weight
        \<lparr>numQubits = 2, dimension = 4,
         amplitudes = [Cnum (3 / 5) 0, Cnum 0 0, Cnum 0 0, Cnum 0 (4 / 5)]\<rparr> 0 r \<noteq> 0 \<and>
      amplitudes reg' ! 0 = Cnum 0 0 \<and> amplitudes reg' ! 3 = Cnum 0 1)"
proof -
  let ?r = "\<lparr>numQubits = 2, dimension = 4,
             amplitudes = [Cnum (3 / 5) 0, Cnum 0 0, Cnum 0 0, Cnum 0 (4 / 5)]\<rparr>"
  have wf: "QuantumRegister_wf ?r" by (simp add: QuantumRegister_wf_def)
  have w0: "outcome_weight ?r 0 0 = 9 / 25"
    by (simp add: outcome_weight_if sum_lessThan_4 bitval_def weight_def power2_eq_square bit_0)
  have w1: "outcome_weight ?r 0 (Suc 0) = 16 / 25"
    by (simp add: outcome_weight_if sum_lessThan_4 bitval_def weight_def power2_eq_square bit_0)
  from C4_measureQubit_collapse [OF wf, of 0 "1 / 2"]
  obtain r reg' where m: "measureQubit ?r 0 (1 / 2) = Inr (r, reg')"
    and c: "outcome_weight ?r (nat 0) r \<noteq> 0 \<longrightarrow>
              (\<forall>s<dimension ?r.
                 amplitudes reg' ! s =
                   (if bitval s (nat 0) = r
                    then Cnum (re (amplitudes ?r ! s) / sqrt (outcome_weight ?r (nat 0) r))
                              (im (amplitudes ?r ! s) / sqrt (outcome_weight ?r (nat 0) r))
                    else Cnum 0 0))"
    by auto
  have r1: "r = Suc 0"
    using m by (simp add: measureQubit_unfold w0 Let_def)
  have s: "sqrt (16 / 25) = 4 / 5"
    by (rule real_sqrt_unique) (simp_all add: power2_eq_square)
  from c have a: "amplitudes reg' ! k =
                   (if bitval k 0 = 1
                    then Cnum (re (amplitudes ?r ! k) / (4 / 5)) (im (amplitudes ?r ! k) / (4 / 5))
                    else Cnum 0 0)" if "k < 4" for k
    using that by (simp add: r1 w1 s)
  have "amplitudes reg' ! 0 = Cnum 0 0 \<and> amplitudes reg' ! 3 = Cnum 0 1"
    using a[of 0] a[of 3] by (simp add: bitval_def bit_0)
  with wf m r1 w1 show ?thesis by auto
qed

section \<open>Unitary matrices preserve the sum of squared magnitudes\<close>

lemma unitary_preserves_norm:
  fixes M :: "nat \<Rightarrow> nat \<Rightarrow> complex" and x :: "nat \<Rightarrow> complex"
  assumes u: "\<And>j l. j < k \<Longrightarrow> l < k \<Longrightarrow> (\<Sum>i<k. cnj (M i j) * M i l) = (if j = l then 1 else 0)"
  shows "(\<Sum>i<k. (cmod (\<Sum>j<k. M i j * x j))\<^sup>2) = (\<Sum>j<k. (cmod (x j))\<^sup>2)"
proof -
  have sq: "complex_of_real ((cmod z)\<^sup>2) = z * cnj z" for z
    by (rule complex_norm_square)
  have "complex_of_real (\<Sum>i<k. (cmod (\<Sum>j<k. M i j * x j))\<^sup>2)
      = (\<Sum>i<k. (\<Sum>j<k. M i j * x j) * cnj (\<Sum>l<k. M i l * x l))"
    by (simp only: of_real_sum sq)
  also have "\<dots> = (\<Sum>i<k. \<Sum>j<k. \<Sum>l<k. (x j * cnj (x l)) * (cnj (M i l) * M i j))"
    by (simp add: sum_product algebra_simps)
  also have "\<dots> = (\<Sum>j<k. \<Sum>l<k. \<Sum>i<k. (x j * cnj (x l)) * (cnj (M i l) * M i j))"
    by (subst sum.swap, rule sum.cong[OF refl], subst sum.swap, rule refl)
  also have "\<dots> = (\<Sum>j<k. \<Sum>l<k. (x j * cnj (x l)) * (\<Sum>i<k. cnj (M i l) * M i j))"
    by (simp add: sum_distrib_left)
  also have "\<dots> = (\<Sum>j<k. \<Sum>l<k. (x j * cnj (x l)) * (if l = j then 1 else 0))"
    by (intro sum.cong refl) (simp add: u)
  also have "\<dots> = (\<Sum>j<k. x j * cnj (x j))"
  proof (intro sum.cong refl)
    fix j assume "j \<in> {..<k}"
    have "(\<Sum>l<k. x j * cnj (x l) * (if l = j then 1 else 0))
        = (\<Sum>l<k. if l = j then x j * cnj (x l) else 0)"
      by (intro sum.cong refl) simp
    also have "\<dots> = x j * cnj (x j)"
      using \<open>j \<in> {..<k}\<close> by (simp add: sum.delta)
    finally show "(\<Sum>l<k. x j * cnj (x l) * (if l = j then 1 else 0)) = x j * cnj (x j)" .
  qed
  also have "\<dots> = complex_of_real (\<Sum>j<k. (cmod (x j))\<^sup>2)"
    by (simp only: of_real_sum sq)
  finally show ?thesis by (simp only: of_real_eq_iff)
qed

lemma cx_add: "cx (Complex_add a b) = cx a + cx b"
  by (simp add: cx_def Complex_add_def complex_eq_iff)

lemma cx_mul: "cx (Complex_mul a b) = cx a * cx b"
  by (simp add: cx_def Complex_mul_def complex_eq_iff)

lemma cx_conj: "cx (Complex_conj a) = cnj (cx a)"
  by (simp add: cx_def Complex_conj_def complex_eq_iff)

lemma cx_ZERO: "cx Complex_ZERO = 0"
  by (simp add: cx_def Complex_ZERO_def complex_eq_iff)

lemma cx_ONE: "cx Complex_ONE = 1"
  by (simp add: cx_def Complex_ONE_def complex_eq_iff)

lemma weight_cmod: "weight c = (cmod (cx c))\<^sup>2"
  by (simp add: weight_def cx_def cmod_power2)

lemma cx_foldl_add:
  "cx (foldl (\<lambda>result i. Complex_add result (f i)) z [0..<k]) = cx z + (\<Sum>i<k. cx (f i))"
  by (induction k) (simp_all add: cx_add)

lemma dot_cx:
  assumes "length v = length w"
  shows "\<exists>r. ComplexUtils_dot v w = Inr r \<and> cx r = (\<Sum>i<length v. cnj (cx (v ! i)) * cx (w ! i))"
  using assms by (simp add: ComplexUtils_dot_def cx_foldl_add cx_ZERO cx_mul cx_conj)

lemma is_unitary_cx:
  assumes u: "is_unitary g" and j: "j < cols g" and l: "l < cols g"
  shows "(\<Sum>i<cols g. cnj (cx (elements g ! i ! j)) * cx (elements g ! i ! l)) = (if j = l then 1 else 0)"
proof -
  have len: "length (elements g) = cols g" using u by (simp add: is_unitary_def)
  have d: "ComplexUtils_dot (QuantumMatrix_column g j) (QuantumMatrix_column g l)
          = Inr (if j = l then Complex_ONE else Complex_ZERO)"
    using u j l by (simp add: is_unitary_def)
  obtain r where r: "ComplexUtils_dot (QuantumMatrix_column g j) (QuantumMatrix_column g l) = Inr r"
     "cx r = (\<Sum>i<length (QuantumMatrix_column g j). cnj (cx (QuantumMatrix_column g j ! i)) * cx (QuantumMatrix_column g l ! i))"
    using dot_cx[of "QuantumMatrix_column g j" "QuantumMatrix_column g l"]
    by (auto simp add: QuantumMatrix_column_def)
  from r(1) d have "r = (if j = l then Complex_ONE else Complex_ZERO)" by simp
  then have "cx r = (if j = l then 1 else 0)" by (simp add: cx_ZERO cx_ONE)
  with r(2) show ?thesis
    by (simp add: QuantumMatrix_column_def len)
qed

lemma sum_pairs:
  assumes fin: "finite A" and closed: "\<And>s. s \<in> A \<Longrightarrow> flip_bit q s \<in> A"
  shows "sum f A = (\<Sum>s\<in>{s\<in>A. \<not> bit s q}. f s + f (flip_bit q (s::nat)) :: real)"
proof -
  let ?Z = "{s\<in>A. \<not> bit s q}" and ?O = "{s\<in>A. bit s q}"
  have "A = ?Z \<union> ?O" by auto
  moreover have "?Z \<inter> ?O = {}" by auto
  moreover have "finite ?Z" "finite ?O" using fin by auto
  ultimately have "sum f A = sum f ?Z + sum f ?O"
    by (metis (no_types, lifting) sum.union_disjoint)
  also have "sum f ?O = (\<Sum>s\<in>?Z. f (flip_bit q s))"
    by (rule sum.reindex_bij_witness[of _ "flip_bit q" "flip_bit q"])
       (auto simp add: flip_flip bit_flip_same closed)
  finally show ?thesis by (simp add: sum.distrib)
qed

lemma sum_lessThan_2: "(\<Sum>i<2. f i) = f 0 + f (1::nat)" for f :: "nat \<Rightarrow> 'a::comm_monoid_add"
  by (simp add: numeral_2_eq_2 lessThan_Suc add.commute)

lemma unitary_2x2_pair:
  assumes u: "is_unitary g" and c: "cols g = 2"
  shows "weight (Complex_add (Complex_mul (elements g ! 0 ! 0) x) (Complex_mul (elements g ! 0 ! 1) y)) +
         weight (Complex_add (Complex_mul (elements g ! 1 ! 0) x) (Complex_mul (elements g ! 1 ! 1) y))
       = weight x + weight y"
proof -
  define M where "M i j = cx (elements g ! i ! j)" for i j
  define v where "v j = (if j = 0 then cx x else cx y)" for j :: nat
  have "(\<Sum>i<2. (cmod (\<Sum>j<2. M i j * v j))\<^sup>2) = (\<Sum>j<2. (cmod (v j))\<^sup>2)"
  proof (rule unitary_preserves_norm)
    fix j l :: nat assume "j < 2" "l < 2"
    then show "(\<Sum>i<2. cnj (M i j) * M i l) = (if j = l then 1 else 0)"
      using is_unitary_cx[OF u, of j l] c by (simp add: M_def)
  qed
  then show ?thesis
    by (simp add: sum_lessThan_2 M_def v_def weight_cmod cx_add cx_mul)
qed

lemma applySingleQubitGate_norm:
  assumes wf: "QuantumRegister_wf reg" and u: "is_unitary gate" and c: "cols gate = 2"
    and q: "0 \<le> q" "q < int (numQubits reg)"
  shows "\<exists>reg'. applySingleQubitGate reg gate q = Inr reg' \<and> QuantumRegister_wf reg' \<and>
           norm_sq reg' = norm_sq reg"
proof -
  let ?q = "nat q" and ?d = "dimension reg" and ?a = "amplitudes reg"
  have d: "?d = 2 ^ numQubits reg" using wf by (simp add: QuantumRegister_wf_def)
  have qn: "?q < numQubits reg" using q by linarith
  from applySingleQubitGate_amplitudes[OF wf q, of gate]
  obtain reg' where r: "applySingleQubitGate reg gate q = Inr reg'"
      "numQubits reg' = numQubits reg" "dimension reg' = ?d"
      "length (amplitudes reg') = ?d"
      and a: "\<And>s. s < ?d \<Longrightarrow> amplitudes reg' ! s =
               Complex_add (Complex_mul (gate_diag gate ?q s) (?a ! s))
                           (Complex_mul (gate_off gate ?q s) (?a ! flip_bit ?q s))"
    by blast
  have wf': "QuantumRegister_wf reg'"
    using wf r by (simp add: QuantumRegister_wf_def)
  have closed: "flip_bit ?q s < ?d" if "s < ?d" for s
    using that flip_less[OF qn, of s] by (simp add: d)
  have "norm_sq reg' = (\<Sum>s<?d. weight (amplitudes reg' ! s))"
    by (simp add: norm_sq_def r)
  also have "\<dots> = (\<Sum>s\<in>{s\<in>{..<?d}. \<not> bit s ?q}.
        weight (amplitudes reg' ! s) + weight (amplitudes reg' ! flip_bit ?q s))"
    by (rule sum_pairs) (simp_all add: closed)
  also have "\<dots> = (\<Sum>s\<in>{s\<in>{..<?d}. \<not> bit s ?q}. weight (?a ! s) + weight (?a ! flip_bit ?q s))"
  proof (rule sum.cong[OF refl])
    fix s assume "s \<in> {s\<in>{..<?d}. \<not> bit s ?q}"
    then have s: "s < ?d" and b: "\<not> bit s ?q" by auto
    have fl: "flip_bit ?q s < ?d" using closed[OF s] .
    have fb: "bit (flip_bit ?q s) ?q" using b by (simp add: bit_flip_same)
    have 1: "amplitudes reg' ! s =
        Complex_add (Complex_mul (elements gate ! 0 ! 0) (?a ! s))
                    (Complex_mul (elements gate ! 0 ! 1) (?a ! flip_bit ?q s))"
      using a[OF s] b by (simp add: gate_diag_def gate_off_def)
    have 2: "amplitudes reg' ! flip_bit ?q s =
        Complex_add (Complex_mul (elements gate ! 1 ! 0) (?a ! s))
                    (Complex_mul (elements gate ! 1 ! 1) (?a ! flip_bit ?q s))"
      using a[OF fl] fb by (simp add: gate_diag_def gate_off_def flip_flip Complex_add_commute)
    show "weight (amplitudes reg' ! s) + weight (amplitudes reg' ! flip_bit ?q s)
        = weight (?a ! s) + weight (?a ! flip_bit ?q s)"
      unfolding 1 2 by (rule unitary_2x2_pair[OF u c])
  qed
  also have "\<dots> = (\<Sum>s<?d. weight (?a ! s))"
    by (rule sum_pairs[symmetric]) (simp_all add: closed)
  also have "\<dots> = norm_sq reg" by (simp add: norm_sq_def)
  finally show ?thesis using r(1) wf' by blast
qed

lemma norm_sq_list_update:
  assumes "length (amplitudes reg) = dimension reg" "b < dimension reg"
  shows "norm_sq (reg\<lparr>amplitudes := (amplitudes reg)[b := c]\<rparr>)
       = norm_sq reg - weight (amplitudes reg ! b) + weight c"
proof -
  let ?d = "dimension reg" and ?a = "amplitudes reg"
  have fin: "finite {..<?d}" and bin: "b \<in> {..<?d}" using assms by simp_all
  have "norm_sq (reg\<lparr>amplitudes := ?a[b := c]\<rparr>) = (\<Sum>s<?d. weight (?a[b := c] ! s))"
    by (simp add: norm_sq_def)
  also have "\<dots> = weight (?a[b := c] ! b) + (\<Sum>s\<in>{..<?d} - {b}. weight (?a[b := c] ! s))"
    by (rule sum.remove[OF fin bin])
  also have "(\<Sum>s\<in>{..<?d} - {b}. weight (?a[b := c] ! s)) = (\<Sum>s\<in>{..<?d} - {b}. weight (?a ! s))"
    by (rule sum.cong) auto
  also have "weight (?a[b := c] ! b) = weight c" using assms by simp
  finally have 1: "norm_sq (reg\<lparr>amplitudes := ?a[b := c]\<rparr>) = weight c + (\<Sum>s\<in>{..<?d} - {b}. weight (?a ! s))" .
  have "norm_sq reg = weight (?a ! b) + (\<Sum>s\<in>{..<?d} - {b}. weight (?a ! s))"
    unfolding norm_sq_def by (rule sum.remove[OF fin bin])
  with 1 show ?thesis by simp
qed

lemma setAmplitude_norm:
  assumes "QuantumRegister_wf reg" "0 \<le> b" "b < int (dimension reg)"
  shows "\<exists>reg'. setAmplitude reg b c = Inr reg' \<and> QuantumRegister_wf reg' \<and>
           norm_sq reg' = norm_sq reg - weight (amplitudes reg ! nat b) + weight c"
proof -
  have "nat b < dimension reg" using assms by linarith
  moreover have "length (amplitudes reg) = dimension reg"
    using assms(1) by (simp add: QuantumRegister_wf_def)
  ultimately show ?thesis
    using assms by (simp add: setAmplitude_def norm_sq_list_update QuantumRegister_wf_def)
qed

lemma norm_sq_basis:
  assumes "0 < d"
  shows "norm_sq \<lparr>numQubits = n, dimension = d, amplitudes = (replicate d Complex_ZERO)[0 := Complex_ONE]\<rparr> = 1"
proof -
  have "norm_sq \<lparr>numQubits = n, dimension = d, amplitudes = (replicate d Complex_ZERO)[0 := Complex_ONE]\<rparr>
      = (\<Sum>s<d. if s = 0 then 1 else 0)"
    unfolding norm_sq_def
    by (rule sum.cong) (auto simp add: nth_list_update weight_def Complex_ONE_def Complex_ZERO_def)
  also have "\<dots> = 1" using assms by (simp add: sum.delta)
  finally show ?thesis .
qed

lemma QuantumRegister_new_norm:
  assumes "1 \<le> n" "n \<le> 20"
  shows "\<exists>reg. QuantumRegister_new n = Inr reg \<and> QuantumRegister_wf reg \<and> numQubits reg = nat n \<and>
           norm_sq reg = 1"
proof -
  have "nat n \<le> 20" "1 \<le> nat n" using assms by linarith+
  then show ?thesis
    using assms
    by (simp add: QuantumRegister_new_def QuantumRegister_initialize_def QuantumRegister_wf_def
          norm_sq_basis)
qed

section \<open>A two-qubit gate on an n-qubit register\<close>

lemma small_of_bool: "(m::nat) < 2 \<Longrightarrow> m = of_bool (odd m)"
  by (cases "m = 0") auto

lemma bit_push_small:
  assumes "m < 2"
  shows "bit (push_bit c (m::nat)) i \<longleftrightarrow> i = c \<and> odd m"
proof -
  have "bit (push_bit c (of_bool (odd m) :: nat)) i \<longleftrightarrow> i = c \<and> odd m"
    by (auto simp add: bit_push_bit_iff bit_of_bool_iff)
  with small_of_bool[OF assms] show ?thesis by simp
qed

lemma bit_place:
  assumes ct: "c \<noteq> t" and k: "k < 4"
  shows "bit (place c t s k) i \<longleftrightarrow>
           (if i = t then odd k else if i = c then odd (k div 2) else bit s i)"
proof -
  have k2: "k mod 2 < 2" "k div 2 < 2" using k by auto
  have "bit (place c t s k) i \<longleftrightarrow>
          (((bit s i \<and> i \<noteq> c) \<or> (i = c \<and> odd (k div 2))) \<and> i \<noteq> t) \<or> (i = t \<and> odd (k mod 2))"
    by (simp only: place_def bit_or_iff bit_unset_bit_iff bit_push_small[OF k2(1)]
          bit_push_small[OF k2(2)]) blast
  also have "odd (k mod 2) = odd k" by presburger
  finally show ?thesis using ct by auto
qed

lemma less_exp_iff_bits: "(s::nat) < 2 ^ n \<longleftrightarrow> (\<forall>i\<ge>n. \<not> bit s i)"
proof
  assume s: "s < 2 ^ n"
  show "\<forall>i\<ge>n. \<not> bit s i"
  proof (intro allI impI)
    fix i assume "n \<le> i"
    then have "(2::nat) ^ n \<le> 2 ^ i" by (simp add: power_increasing)
    with s have "s < 2 ^ i" by linarith
    then have "s div 2 ^ i = 0" by simp
    then show "\<not> bit s i" by (simp add: bit_iff_odd)
  qed
next
  assume a: "\<forall>i\<ge>n. \<not> bit s i"
  have "take_bit n s = s"
  proof (rule bit_eqI)
    fix i
    show "bit (take_bit n s) i = bit s i"
    proof (cases "i < n")
      case True
      then show ?thesis by (simp only: bit_take_bit_iff simp_thms)
    next
      case False
      then have "\<not> bit s i" using a by (simp add: not_less)
      with False show ?thesis by (simp only: bit_take_bit_iff simp_thms)
    qed
  qed
  then show "s < 2 ^ n" by (simp only: take_bit_nat_eq_self_iff)
qed

lemma place_less:
  assumes "c \<noteq> t" "k < 4" "c < n" "t < n" "s < 2 ^ n"
  shows "place c t s k < 2 ^ n"
  unfolding less_exp_iff_bits
proof (intro allI impI)
  fix i assume i: "n \<le> i"
  then have "i \<noteq> t" "i \<noteq> c" using assms(3,4) by auto
  moreover have "\<not> bit s i" using assms(5) i by (simp add: less_exp_iff_bits)
  ultimately show "\<not> bit (place c t s k) i"
    unfolding bit_place[OF assms(1,2)] by simp
qed

lemma sub_index_less: "sub_index c t s < 4"
  by (simp add: sub_index_def bitval_def)

lemma sub_index_place:
  assumes "c \<noteq> t" "k < 4"
  shows "sub_index c t (place c t s k) = k"
proof -
  have bc: "bit (place c t s k) c \<longleftrightarrow> odd (k div 2)"
    using assms(1) by (simp add: bit_place[OF assms])
  have bt: "bit (place c t s k) t \<longleftrightarrow> odd k"
    by (simp add: bit_place[OF assms])
  have "k div 2 < 2" using assms(2) by simp
  then have "k div 2 = 0 \<or> k div 2 = 1" by linarith
  then have d: "(if odd (k div 2) then 1 else 0) = k div 2"
    by auto
  have m: "(if odd k then 1 else 0) = k mod 2"
    by (simp add: odd_iff_mod_2_eq_one)
  have "sub_index c t (place c t s k) = (if odd (k div 2) then 1 else 0) * 2 + (if odd k then 1 else 0)"
    unfolding sub_index_def bitval_def bc bt ..
  also have "\<dots> = k div 2 * 2 + k mod 2" unfolding d m ..
  also have "\<dots> = k" by simp
  finally show ?thesis .
qed

lemma place_place:
  assumes "c \<noteq> t" "k < 4" "j < 4"
  shows "place c t (place c t s k) j = place c t s j"
proof (rule bit_eqI)
  fix i
  show "bit (place c t (place c t s k) j) i = bit (place c t s j) i"
    unfolding bit_place[OF assms(1,3)] bit_place[OF assms(1,2)] by simp
qed

lemma place_sub_index:
  assumes "c \<noteq> t"
  shows "place c t s (sub_index c t s) = s"
proof (rule bit_eqI)
  fix i
  have l: "sub_index c t s < 4" by (rule sub_index_less)
  have o1: "odd (sub_index c t s) \<longleftrightarrow> bit s t"
    by (simp add: sub_index_def bitval_def)
  have o2: "odd (sub_index c t s div 2) \<longleftrightarrow> bit s c"
    by (simp add: sub_index_def bitval_def)
  show "bit (place c t s (sub_index c t s)) i = bit s i"
    unfolding bit_place[OF assms l] o1 o2 by simp
qed

lemma place_base:
  assumes "c \<noteq> t" "\<not> bit b c" "\<not> bit b t"
  shows "place c t b 0 = b"
proof -
  have "sub_index c t b = 0" using assms(2,3) by (simp add: sub_index_def bitval_def)
  with place_sub_index[OF assms(1), of b] show ?thesis by simp
qed

lemma sum_groups:
  fixes f :: "nat \<Rightarrow> 'a::comm_monoid_add"
  assumes ct: "c \<noteq> t" and cn: "c < n" and tn: "t < n"
  shows "(\<Sum>s<2 ^ n. f s) =
         (\<Sum>b\<in>{b. b < 2 ^ n \<and> \<not> bit b c \<and> \<not> bit b t}. \<Sum>j<4. f (place c t b j))"
proof -
  let ?B = "{b. b < 2 ^ n \<and> \<not> bit b c \<and> \<not> bit b t}"
  have "(\<Sum>s<2 ^ n. f s) = (\<Sum>(b, j)\<in>?B \<times> {..<4}. f (place c t b j))"
  proof (rule sum.reindex_bij_witness[of _ "\<lambda>(b, j). place c t b j"
            "\<lambda>s. (place c t s 0, sub_index c t s)"])
    fix s :: nat assume "s \<in> {..<2 ^ n}"
    then have s: "s < 2 ^ n" by simp
    have l: "sub_index c t s < 4" by (rule sub_index_less)
    show "(case (place c t s 0, sub_index c t s) of (b, j) \<Rightarrow> place c t b j) = s"
      using place_place[OF ct _ l, of 0 s] place_sub_index[OF ct, of s] by simp
    show "(place c t s 0, sub_index c t s) \<in> ?B \<times> {..<4}"
      using place_less[OF ct _ cn tn s, of 0] l ct by (simp add: bit_place)
    show "(case (place c t s 0, sub_index c t s) of (b, j) \<Rightarrow> f (place c t b j)) = f s"
      using place_place[OF ct _ l, of 0 s] place_sub_index[OF ct, of s] by simp
  next
    fix p :: "nat \<times> nat" assume "p \<in> ?B \<times> {..<4}"
    then obtain b j where p: "p = (b, j)" and b: "b < 2 ^ n" "\<not> bit b c" "\<not> bit b t" and j: "j < 4"
      by auto
    show "(place c t (case p of (b, j) \<Rightarrow> place c t b j) 0,
           sub_index c t (case p of (b, j) \<Rightarrow> place c t b j)) = p"
      using place_place[OF ct j, of 0 b] sub_index_place[OF ct j, of b] place_base[OF ct b(2,3)]
      by (simp add: p)
    show "(case p of (b, j) \<Rightarrow> place c t b j) \<in> {..<2 ^ n}"
      using place_less[OF ct j cn tn b(1)] by (simp add: p)
  qed
  also have "\<dots> = (\<Sum>b\<in>?B. \<Sum>j<4. f (place c t b j))"
    by (simp add: sum.cartesian_product)
  finally show ?thesis .
qed

lemma accumulate_fold:
  assumes "length new = d" "\<forall>x\<in>set xs. idx x < d" "u < d"
  shows "length (foldl (\<lambda>nw x. nw[idx x := Complex_add (nw ! idx x) (val x)]) new xs) = d \<and>
         cx (foldl (\<lambda>nw x. nw[idx x := Complex_add (nw ! idx x) (val x)]) new xs ! u)
           = cx (new ! u) + (\<Sum>x\<leftarrow>xs. if idx x = u then cx (val x) else 0)"
  using assms
proof (induction xs arbitrary: new)
  case Nil
  then show ?case by simp
next
  case (Cons x xs)
  let ?new = "new[idx x := Complex_add (new ! idx x) (val x)]"
  have l: "length ?new = d" using Cons.prems by simp
  have i: "\<forall>x\<in>set xs. idx x < d" using Cons.prems by simp
  have x: "idx x < d" using Cons.prems by simp
  have "cx (?new ! u) = cx (new ! u) + (if idx x = u then cx (val x) else 0)"
    using Cons.prems x by (simp add: nth_list_update cx_add)
  with Cons.IH[OF l i Cons.prems(3)] show ?case
    by (simp add: add.assoc)
qed

lemma applyTwoQubitGate_step_effect:
  assumes ct: "c \<noteq> t" and cn: "c < n" and tn: "t < n" and s: "s < 2 ^ n"
    and len: "length new = 2 ^ n" and u: "u < 2 ^ n"
  shows "length (applyTwoQubitGate_step g c t old new s) = 2 ^ n \<and>
         cx (applyTwoQubitGate_step g c t old new s ! u) = cx (new ! u) + contrib g c t old s u"
proof -
  have step: "applyTwoQubitGate_step g c t old new s =
      foldl (\<lambda>nw out. nw[place c t s out := Complex_add (nw ! place c t s out)
                 (Complex_mul (elements g ! out ! sub_index c t s) (old ! s))]) new [0..<4]"
    unfolding applyTwoQubitGate_step_def applyTwoQubitGate_out_def Let_def bit_test_bitval
      place_def sub_index_def ..
  have idx: "\<forall>out\<in>set [0..<4]. place c t s out < 2 ^ n"
    using place_less[OF ct _ cn tn s] by simp
  have "(\<Sum>out\<leftarrow>[0..<4]. if place c t s out = u
            then cx (Complex_mul (elements g ! out ! sub_index c t s) (old ! s)) else 0)
       = contrib g c t old s u"
    by (simp add: contrib_def interv_sum_list_conv_sum_set_nat cx_mul lessThan_atLeast0
          cong: if_cong)
  with accumulate_fold[OF len idx u,
      of "\<lambda>out. Complex_mul (elements g ! out ! sub_index c t s) (old ! s)"]
  show ?thesis unfolding step by simp
qed

lemma applyTwoQubitGate_fold_invariant:
  assumes ct: "c \<noteq> t" and cn: "c < n" and tn: "t < n" and k: "k \<le> 2 ^ n"
  shows "length (foldl (applyTwoQubitGate_step g c t old) (replicate (2 ^ n) Complex_ZERO) [0..<k]) = 2 ^ n \<and>
     (\<forall>u<2 ^ n. cx (foldl (applyTwoQubitGate_step g c t old) (replicate (2 ^ n) Complex_ZERO) [0..<k] ! u)
        = (\<Sum>s<k. contrib g c t old s u))"
  using k
proof (induction k)
  case 0
  show ?case by (simp add: cx_ZERO)
next
  case (Suc k)
  let ?new = "foldl (applyTwoQubitGate_step g c t old) (replicate (2 ^ n) Complex_ZERO) [0..<k]"
  from Suc have kl: "k < 2 ^ n" by simp
  from Suc have len: "length ?new = 2 ^ n"
    and inv: "\<And>u. u < 2 ^ n \<Longrightarrow> cx (?new ! u) = (\<Sum>s<k. contrib g c t old s u)"
    by simp_all
  have step: "foldl (applyTwoQubitGate_step g c t old) (replicate (2 ^ n) Complex_ZERO) [0..<Suc k]
     = applyTwoQubitGate_step g c t old ?new k"
    by simp
  have z: "(0::nat) < 2 ^ n" by simp
  show ?case
    unfolding step
  proof (intro conjI allI impI)
    show "length (applyTwoQubitGate_step g c t old ?new k) = 2 ^ n"
      using applyTwoQubitGate_step_effect[OF ct cn tn kl len z, of g old] by simp
  next
    fix u :: nat assume u: "u < 2 ^ n"
    show "cx (applyTwoQubitGate_step g c t old ?new k ! u) = (\<Sum>s<Suc k. contrib g c t old s u)"
      using applyTwoQubitGate_step_effect[OF ct cn tn kl len u, of g old] inv[OF u]
      by (simp add: add.commute)
  qed
qed

lemma place_eq_iff:
  assumes ct: "c \<noteq> t" and b: "\<not> bit b c" "\<not> bit b t" and b': "\<not> bit b' c" "\<not> bit b' t"
    and i: "i < 4" and out: "out < 4"
  shows "place c t b' out = place c t b i \<longleftrightarrow> b' = b \<and> out = i"
proof
  assume e: "place c t b' out = place c t b i"
  have "out = sub_index c t (place c t b' out)" using sub_index_place[OF ct out] by simp
  also have "\<dots> = i" unfolding e using sub_index_place[OF ct i] by simp
  finally have oi: "out = i" .
  have "b' = place c t (place c t b' out) 0"
    using place_place[OF ct out, of 0 b'] place_base[OF ct b'] by simp
  also have "\<dots> = b"
    unfolding e using place_place[OF ct i, of 0 b] place_base[OF ct b] by simp
  finally show "b' = b \<and> out = i" using oi by simp
next
  assume "b' = b \<and> out = i"
  then show "place c t b' out = place c t b i" by simp
qed

lemma sum_contrib_group:
  assumes ct: "c \<noteq> t" and cn: "c < n" and tn: "t < n"
    and b: "b < 2 ^ n" "\<not> bit b c" "\<not> bit b t" and i: "i < 4"
  shows "(\<Sum>s<2 ^ n. contrib g c t old s (place c t b i))
       = (\<Sum>j<4. cx (elements g ! i ! j) * cx (old ! place c t b j))"
proof -
  let ?B = "{b::nat. b < 2 ^ n \<and> \<not> bit b c \<and> \<not> bit b t}"
  have inner: "contrib g c t old (place c t b' j) (place c t b i)
      = (if b' = b then cx (elements g ! i ! j) * cx (old ! place c t b j) else 0)"
    if b': "b' \<in> ?B" and j: "j \<in> {..<4}" for b' j :: nat
  proof -
    from b' have nb: "\<not> bit b' c" "\<not> bit b' t" by auto
    from j have j4: "j < 4" by simp
    have "contrib g c t old (place c t b' j) (place c t b i)
        = (\<Sum>out<4. if place c t b' out = place c t b i
              then cx (elements g ! out ! j) * cx (old ! place c t b' j) else 0)"
      unfolding contrib_def
      by (rule sum.cong[OF refl]) (simp add: place_place[OF ct j4] sub_index_place[OF ct j4])
    also have "\<dots> = (\<Sum>out<4. if out = i
              then (if b' = b then cx (elements g ! i ! j) * cx (old ! place c t b j) else 0) else 0)"
      by (rule sum.cong[OF refl]) (auto simp add: place_eq_iff[OF ct b(2,3) nb i])
    also have "\<dots> = (if b' = b then cx (elements g ! i ! j) * cx (old ! place c t b j) else 0)"
      using i by (simp add: sum.delta)
    finally show ?thesis .
  qed
  have bB: "b \<in> ?B" using b by simp
  have finB: "finite ?B" by simp
  have "(\<Sum>s<2 ^ n. contrib g c t old s (place c t b i))
      = (\<Sum>b'\<in>?B. \<Sum>j<4. contrib g c t old (place c t b' j) (place c t b i))"
    by (rule sum_groups[OF ct cn tn])
  also have "\<dots> = (\<Sum>b'\<in>?B. \<Sum>j<4. if b' = b then cx (elements g ! i ! j) * cx (old ! place c t b j) else 0)"
    by (intro sum.cong refl) (rule inner)
  also have "\<dots> = (\<Sum>b'\<in>?B. if b' = b then (\<Sum>j<4. cx (elements g ! i ! j) * cx (old ! place c t b j)) else 0)"
    by (intro sum.cong refl) simp
  also have "\<dots> = (\<Sum>j<4. cx (elements g ! i ! j) * cx (old ! place c t b j))"
    using bB by (simp add: sum.delta[OF finB])
  finally show ?thesis .
qed

lemma applyTwoQubitGate_amplitudes:
  assumes wf: "QuantumRegister_wf reg" and c: "0 \<le> c" "c < int (numQubits reg)"
    and t: "0 \<le> t" "t < int (numQubits reg)" and ct: "c \<noteq> t"
  shows "\<exists>reg'. applyTwoQubitGate reg gate c t = Inr reg' \<and>
           numQubits reg' = numQubits reg \<and> dimension reg' = dimension reg \<and>
           length (amplitudes reg') = dimension reg \<and>
           (\<forall>b i. b < dimension reg \<and> \<not> bit b (nat c) \<and> \<not> bit b (nat t) \<and> i < 4 \<longrightarrow>
              cx (amplitudes reg' ! place (nat c) (nat t) b i) =
                (\<Sum>j<4. cx (elements gate ! i ! j) * cx (amplitudes reg ! place (nat c) (nat t) b j)))"
proof -
  let ?n = "numQubits reg"
  let ?new = "foldl (applyTwoQubitGate_step gate (nat c) (nat t) (amplitudes reg))
                 (replicate (2 ^ ?n) Complex_ZERO) [0..<2 ^ ?n]"
  have d: "dimension reg = 2 ^ ?n" using wf by (simp add: QuantumRegister_wf_def)
  have cn: "nat c < ?n" and tn: "nat t < ?n" and ne: "nat c \<noteq> nat t"
    using c t ct by linarith+
  have inv: "length ?new = 2 ^ ?n \<and>
     (\<forall>u<2 ^ ?n. cx (?new ! u) = (\<Sum>s<2 ^ ?n. contrib gate (nat c) (nat t) (amplitudes reg) s u))"
    by (rule applyTwoQubitGate_fold_invariant[OF ne cn tn]) simp
  have app: "applyTwoQubitGate reg gate c t = Inr (reg\<lparr>amplitudes := ?new\<rparr>)"
    using c t ct by (simp add: applyTwoQubitGate_def d)
  have "cx (?new ! place (nat c) (nat t) b i) =
                (\<Sum>j<4. cx (elements gate ! i ! j) * cx (amplitudes reg ! place (nat c) (nat t) b j))"
    if "b < dimension reg" "\<not> bit b (nat c)" "\<not> bit b (nat t)" "i < 4" for b i :: nat
  proof -
    have b: "b < 2 ^ ?n" using that(1) by (simp add: d)
    have "place (nat c) (nat t) b i < 2 ^ ?n"
      by (rule place_less[OF ne that(4) cn tn b])
    with inv have "cx (?new ! place (nat c) (nat t) b i)
        = (\<Sum>s<2 ^ ?n. contrib gate (nat c) (nat t) (amplitudes reg) s (place (nat c) (nat t) b i))"
      by simp
    also have "\<dots> = (\<Sum>j<4. cx (elements gate ! i ! j) * cx (amplitudes reg ! place (nat c) (nat t) b j))"
      by (rule sum_contrib_group[OF ne cn tn b that(2,3,4)])
    finally show ?thesis .
  qed
  with app inv d show ?thesis by simp
qed

lemma applyTwoQubitGate_norm:
  assumes wf: "QuantumRegister_wf reg" and u: "is_unitary gate" and c4: "cols gate = 4"
    and c: "0 \<le> c" "c < int (numQubits reg)"
    and t: "0 \<le> t" "t < int (numQubits reg)" and ct: "c \<noteq> t"
  shows "\<exists>reg'. applyTwoQubitGate reg gate c t = Inr reg' \<and> QuantumRegister_wf reg' \<and>
           norm_sq reg' = norm_sq reg"
proof -
  let ?c = "nat c" and ?t = "nat t" and ?n = "numQubits reg" and ?a = "amplitudes reg"
  let ?B = "{b::nat. b < 2 ^ ?n \<and> \<not> bit b ?c \<and> \<not> bit b ?t}"
  have d: "dimension reg = 2 ^ ?n" using wf by (simp add: QuantumRegister_wf_def)
  have cn: "?c < ?n" and tn: "?t < ?n" and ne: "?c \<noteq> ?t"
    using c t ct by linarith+
  from applyTwoQubitGate_amplitudes[OF wf c t ct, of gate]
  obtain reg' where r: "applyTwoQubitGate reg gate c t = Inr reg'"
      "numQubits reg' = numQubits reg" "dimension reg' = dimension reg"
      "length (amplitudes reg') = dimension reg"
      and a: "\<And>b i. b < dimension reg \<Longrightarrow> \<not> bit b ?c \<Longrightarrow> \<not> bit b ?t \<Longrightarrow> i < 4 \<Longrightarrow>
              cx (amplitudes reg' ! place ?c ?t b i) =
                (\<Sum>j<4. cx (elements gate ! i ! j) * cx (?a ! place ?c ?t b j))"
    by blast
  have wf': "QuantumRegister_wf reg'"
    using wf r by (simp add: QuantumRegister_wf_def)
  have "norm_sq reg' = (\<Sum>s<2 ^ ?n. weight (amplitudes reg' ! s))"
    by (simp add: norm_sq_def r d)
  also have "\<dots> = (\<Sum>b\<in>?B. \<Sum>i<4. weight (amplitudes reg' ! place ?c ?t b i))"
    by (rule sum_groups[OF ne cn tn])
  also have "\<dots> = (\<Sum>b\<in>?B. \<Sum>j<4. weight (?a ! place ?c ?t b j))"
  proof (rule sum.cong[OF refl])
    fix b :: nat assume "b \<in> ?B"
    then have b: "b < dimension reg" "\<not> bit b ?c" "\<not> bit b ?t" by (simp_all add: d)
    have "(\<Sum>i<4. weight (amplitudes reg' ! place ?c ?t b i))
        = (\<Sum>i<4. (cmod (\<Sum>j<4. cx (elements gate ! i ! j) * cx (?a ! place ?c ?t b j)))\<^sup>2)"
      by (rule sum.cong[OF refl]) (simp add: weight_cmod a[OF b])
    also have "\<dots> = (\<Sum>j<4. (cmod (cx (?a ! place ?c ?t b j)))\<^sup>2)"
    proof (rule unitary_preserves_norm)
      fix j l :: nat assume "j < 4" "l < 4"
      then show "(\<Sum>i<4. cnj (cx (elements gate ! i ! j)) * cx (elements gate ! i ! l))
          = (if j = l then 1 else 0)"
        using is_unitary_cx[OF u, of j l] c4 by simp
    qed
    also have "\<dots> = (\<Sum>j<4. weight (?a ! place ?c ?t b j))"
      by (simp add: weight_cmod)
    finally show "(\<Sum>i<4. weight (amplitudes reg' ! place ?c ?t b i))
        = (\<Sum>j<4. weight (?a ! place ?c ?t b j))" .
  qed
  also have "\<dots> = (\<Sum>s<2 ^ ?n. weight (?a ! s))"
    by (rule sum_groups[OF ne cn tn, symmetric])
  also have "\<dots> = norm_sq reg" by (simp add: norm_sq_def d)
  finally show ?thesis using r(1) wf' by blast
qed

section \<open>The normalisation invariant\<close>

lemma weight_scaled:
  assumes "0 < p"
  shows "weight (Cnum (re a / sqrt p) (im a / sqrt p)) = weight a / p"
proof -
  have "(sqrt p)\<^sup>2 = p" using assms by simp
  then show ?thesis
    by (simp add: weight_def power_divide add_divide_distrib)
qed

lemma weight_ZERO: "weight Complex_ZERO = 0"
  by (simp add: weight_def Complex_ZERO_def)

lemma measureQubit_norm:
  assumes wf: "QuantumRegister_wf reg" and i: "0 \<le> i" "i < int (numQubits reg)"
    and m: "measureQubit reg i random = Inr (r, reg')"
    and p: "outcome_weight reg (nat i) r \<noteq> 0"
  shows "QuantumRegister_wf reg' \<and> norm_sq reg' = 1"
proof -
  let ?p = "outcome_weight reg (nat i) r" and ?d = "dimension reg"
  have pos: "0 < ?p" using p outcome_weight_nonneg[of reg "nat i" r] by simp
  have reg': "reg' = reg\<lparr>amplitudes :=
      map (\<lambda>a. Cnum (re a / sqrt ?p) (im a / sqrt ?p))
        (map (\<lambda>s. if bitval s (nat i) = r then amplitudes reg ! s else Complex_ZERO) [0..<?d])\<rparr>"
    using m pos unfolding measureQubit_unfold[OF i] Let_def by auto
  have wf': "QuantumRegister_wf reg'"
    using wf by (simp add: reg' QuantumRegister_wf_def)
  have "norm_sq reg' = (\<Sum>s<?d. if bitval s (nat i) = r then weight (amplitudes reg ! s) / ?p else 0)"
    unfolding norm_sq_def
    by (rule sum.cong) (simp_all add: reg' weight_scaled[OF pos] weight_ZERO)
  also have "\<dots> = (\<Sum>s<?d. (if bitval s (nat i) = r then weight (amplitudes reg ! s) else 0) / ?p)"
    by (rule sum.cong) simp_all
  also have "\<dots> = ?p / ?p"
    by (simp only: sum_divide_distrib[symmetric] outcome_weight_if)
  also have "\<dots> = 1" using pos by simp
  finally show ?thesis using wf' by simp
qed

lemma is_unitary_H: "is_unitary QuantumGates_H \<and> cols QuantumGates_H = 2"
  by (simp add: is_unitary_def QuantumGates_H_def QuantumMatrix_new_def Let_def All_less_Suc
        ComplexUtils_dot_def QuantumMatrix_column_def upt_0_2 Complex_add_def Complex_mul_def
        Complex_conj_def Complex_ZERO_def Complex_ONE_def)

lemma is_unitary_CNOT: "is_unitary QuantumGates_CNOT \<and> cols QuantumGates_CNOT = 4"
  by (simp add: is_unitary_def QuantumGates_CNOT_def QuantumMatrix_new_def All_less_Suc
        ComplexUtils_dot_def QuantumMatrix_column_def upt_0_4 Complex_add_def Complex_mul_def
        Complex_conj_def Complex_ZERO_def Complex_ONE_def)

text \<open>When the sampled index is not 0, \<open>measureAll\<close> writes the amplitude 1 at the sampled
  index after \<open>initialize()\<close> has written 1 at index 0, and both stay.\<close>

lemma measureAll_keeps_index_0:
  "measureAll \<lparr>numQubits = 1, dimension = 2, amplitudes = [Cnum 0 0, Cnum 1 0]\<rparr> (1 / 2)
     = (1, \<lparr>numQubits = 1, dimension = 2, amplitudes = [Cnum 1 0, Cnum 1 0]\<rparr>)"
  by (simp add: measureAll_def getAllProbabilities_def Complex_abs_real
        QuantumRegister_initialize_def replicate_2 Complex_ONE_def Complex_ZERO_def)

text \<open>
  C1 (counterexample).  After the constructor the sum of squared magnitudes is 1; after the call
  \<open>setAmplitude(1, ONE)\<close> on the fresh two-qubit register (step 1 of
  \<open>deutschAlgorithm\<close>) the call has returned and the sum is 2.
\<close>

theorem C1_counterexample:
  "\<exists>r0 r1. QuantumRegister_new 2 = Inr r0 \<and> norm_sq r0 = 1 \<and>
           setAmplitude r0 1 Complex_ONE = Inr r1 \<and> norm_sq r1 = 2"
  by (simp add: QuantumRegister_new_2 setAmplitude_def norm_sq_def sum_lessThan_4 weight_def
        list_update_Cons_numeral Complex_ONE_def Complex_ZERO_def)

text \<open>
  C1 (amended).  For every well-formed register:
  the constructor, given a qubit count in 1..20, returns a register with
  \<open>\<Sum>|amplitude\<^sub>i|\<^sup>2 = 1\<close>;
  \<open>applySingleQubitGate\<close> with a unitary 2x2 matrix and \<open>applyTwoQubitGate\<close> with a unitary
  4x4 matrix succeed on in-range (distinct) qubits and keep the sum, so a normalised
  register stays normalised;
  \<open>measureQubit\<close> on an in-range qubit returns an outcome and, when that outcome has
  nonzero weight, leaves the sum equal to 1;
  \<open>setAmplitude\<close> on an in-range index succeeds and does not renormalise: the sum changes
  by \<open>|new|\<^sup>2 - |old|\<^sup>2\<close>;
  a qubit count outside 1..20, an out-of-range qubit or basis index, or a control
  equal to the target, makes the call fail with its error before anything is
  written.
\<close>

theorem C1_normalisation:
  assumes wf: "QuantumRegister_wf reg"
  shows
    "(\<forall>n. 1 \<le> n \<and> n \<le> 20 \<longrightarrow>
        (\<exists>r. QuantumRegister_new n = Inr r \<and> QuantumRegister_wf r \<and> norm_sq r = 1)) \<and>
     (\<forall>gate q. is_unitary gate \<and> cols gate = 2 \<and> 0 \<le> q \<and> q < int (numQubits reg) \<longrightarrow>
        (\<exists>reg'. applySingleQubitGate reg gate q = Inr reg' \<and> QuantumRegister_wf reg' \<and>
           norm_sq reg' = norm_sq reg)) \<and>
     (\<forall>gate c t. is_unitary gate \<and> cols gate = 4 \<and> 0 \<le> c \<and> c < int (numQubits reg) \<and>
         0 \<le> t \<and> t < int (numQubits reg) \<and> c \<noteq> t \<longrightarrow>
        (\<exists>reg'. applyTwoQubitGate reg gate c t = Inr reg' \<and> QuantumRegister_wf reg' \<and>
           norm_sq reg' = norm_sq reg)) \<and>
     (\<forall>i random. 0 \<le> i \<and> i < int (numQubits reg) \<longrightarrow>
        (\<exists>r reg'. measureQubit reg i random = Inr (r, reg') \<and>
           (outcome_weight reg (nat i) r \<noteq> 0 \<longrightarrow>
              QuantumRegister_wf reg' \<and> norm_sq reg' = 1))) \<and>
     (\<forall>b c. 0 \<le> b \<and> b < int (dimension reg) \<longrightarrow>
        (\<exists>reg'. setAmplitude reg b c = Inr reg' \<and> QuantumRegister_wf reg' \<and>
           norm_sq reg' = norm_sq reg - weight (amplitudes reg ! nat b) + weight c)) \<and>
     (\<forall>gate q. \<not> (0 \<le> q \<and> q < int (numQubits reg)) \<longrightarrow>
        applySingleQubitGate reg gate q = Inl QubitIndexOutOfRange) \<and>
     (\<forall>gate c t. \<not> (0 \<le> c \<and> c < int (numQubits reg) \<and> 0 \<le> t \<and> t < int (numQubits reg)) \<longrightarrow>
        applyTwoQubitGate reg gate c t = Inl QubitIndexOutOfRange) \<and>
     (\<forall>gate c t. 0 \<le> c \<and> c < int (numQubits reg) \<and> t = c \<longrightarrow>
        applyTwoQubitGate reg gate c t = Inl InvalidQubitPair) \<and>
     (\<forall>i random. \<not> (0 \<le> i \<and> i < int (numQubits reg)) \<longrightarrow>
        measureQubit reg i random = Inl QubitIndexOutOfRange) \<and>
     (\<forall>b c. \<not> (0 \<le> b \<and> b < int (dimension reg)) \<longrightarrow>
        setAmplitude reg b c = Inl StateIndexOutOfRange) \<and>
     (\<forall>n. \<not> (1 \<le> n \<and> n \<le> 20) \<longrightarrow> QuantumRegister_new n = Inl InvalidQubitCount)"
proof (intro conjI allI impI)
  fix n :: int assume "1 \<le> n \<and> n \<le> 20"
  then show "\<exists>r. QuantumRegister_new n = Inr r \<and> QuantumRegister_wf r \<and> norm_sq r = 1"
    using QuantumRegister_new_norm[of n] by blast
next
  fix gate q assume "is_unitary gate \<and> cols gate = 2 \<and> 0 \<le> q \<and> q < int (numQubits reg)"
  then show "\<exists>reg'. applySingleQubitGate reg gate q = Inr reg' \<and> QuantumRegister_wf reg' \<and>
           norm_sq reg' = norm_sq reg"
    using applySingleQubitGate_norm[OF wf, of gate q] by blast
next
  fix gate c t
  assume "is_unitary gate \<and> cols gate = 4 \<and> 0 \<le> c \<and> c < int (numQubits reg) \<and>
         0 \<le> t \<and> t < int (numQubits reg) \<and> c \<noteq> t"
  then show "\<exists>reg'. applyTwoQubitGate reg gate c t = Inr reg' \<and> QuantumRegister_wf reg' \<and>
           norm_sq reg' = norm_sq reg"
    using applyTwoQubitGate_norm[OF wf, of gate c t] by blast
next
  fix i random assume a: "0 \<le> i \<and> i < int (numQubits reg)"
  then obtain r reg' where m: "measureQubit reg i random = Inr (r, reg')"
    by (simp add: measureQubit_unfold Let_def)
  have "outcome_weight reg (nat i) r \<noteq> 0 \<longrightarrow> QuantumRegister_wf reg' \<and> norm_sq reg' = 1"
    using measureQubit_norm[OF wf _ _ m] a by blast
  with m show "\<exists>r reg'. measureQubit reg i random = Inr (r, reg') \<and>
           (outcome_weight reg (nat i) r \<noteq> 0 \<longrightarrow>
              QuantumRegister_wf reg' \<and> norm_sq reg' = 1)"
    by blast
next
  fix b c assume "0 \<le> b \<and> b < int (dimension reg)"
  then show "\<exists>reg'. setAmplitude reg b c = Inr reg' \<and> QuantumRegister_wf reg' \<and>
           norm_sq reg' = norm_sq reg - weight (amplitudes reg ! nat b) + weight c"
    using setAmplitude_norm[OF wf, of b c] by blast
next
  fix gate q assume "\<not> (0 \<le> q \<and> q < int (numQubits reg))"
  then show "applySingleQubitGate reg gate q = Inl QubitIndexOutOfRange"
    by (auto simp add: applySingleQubitGate_def)
next
  fix gate c t
  assume "\<not> (0 \<le> c \<and> c < int (numQubits reg) \<and> 0 \<le> t \<and> t < int (numQubits reg))"
  then show "applyTwoQubitGate reg gate c t = Inl QubitIndexOutOfRange"
    by (auto simp add: applyTwoQubitGate_def)
next
  fix gate c t assume "0 \<le> c \<and> c < int (numQubits reg) \<and> t = c"
  then show "applyTwoQubitGate reg gate c t = Inl InvalidQubitPair"
    by (auto simp add: applyTwoQubitGate_def)
next
  fix i random assume "\<not> (0 \<le> i \<and> i < int (numQubits reg))"
  then show "measureQubit reg i random = Inl QubitIndexOutOfRange"
    by (auto simp add: measureQubit_def)
next
  fix b c assume "\<not> (0 \<le> b \<and> b < int (dimension reg))"
  then show "setAmplitude reg b c = Inl StateIndexOutOfRange"
    by (auto simp add: setAmplitude_def)
next
  fix n :: int assume "\<not> (1 \<le> n \<and> n \<le> 20)"
  then show "QuantumRegister_new n = Inl InvalidQubitCount"
    by (auto simp add: QuantumRegister_new_def)
qed

theorem C1_normalisation_witness:
  "QuantumRegister_wf
     \<lparr>numQubits = 2, dimension = 4, amplitudes = [Cnum 1 0, Cnum 0 0, Cnum 0 0, Cnum 0 0]\<rparr> \<and>
   (\<exists>r. QuantumRegister_new 2 = Inr r \<and> norm_sq r = 1) \<and>
   (\<exists>reg'. applySingleQubitGate
             \<lparr>numQubits = 2, dimension = 4,
              amplitudes = [Cnum 1 0, Cnum 0 0, Cnum 0 0, Cnum 0 0]\<rparr> QuantumGates_H 0 = Inr reg' \<and>
           norm_sq reg' = 1) \<and>
   (\<exists>reg'. applyTwoQubitGate
             \<lparr>numQubits = 2, dimension = 4,
              amplitudes = [Cnum 1 0, Cnum 0 0, Cnum 0 0, Cnum 0 0]\<rparr> QuantumGates_CNOT 0 1
             = Inr reg' \<and>
           norm_sq reg' = 1) \<and>
   (\<exists>r reg'. measureQubit
               \<lparr>numQubits = 2, dimension = 4,
                amplitudes = [Cnum 1 0, Cnum 0 0, Cnum 0 0, Cnum 0 0]\<rparr> 0 (1 / 2) = Inr (r, reg') \<and>
             norm_sq reg' = 1) \<and>
   (\<exists>reg'. setAmplitude
             \<lparr>numQubits = 2, dimension = 4,
              amplitudes = [Cnum 1 0, Cnum 0 0, Cnum 0 0, Cnum 0 0]\<rparr> 1 (Cnum 1 0) = Inr reg' \<and>
           norm_sq reg' = 2) \<and>
   applySingleQubitGate
     \<lparr>numQubits = 2, dimension = 4, amplitudes = [Cnum 1 0, Cnum 0 0, Cnum 0 0, Cnum 0 0]\<rparr>
     QuantumGates_H 2 = Inl QubitIndexOutOfRange \<and>
   applyTwoQubitGate
     \<lparr>numQubits = 2, dimension = 4, amplitudes = [Cnum 1 0, Cnum 0 0, Cnum 0 0, Cnum 0 0]\<rparr>
     QuantumGates_CNOT 0 7 = Inl QubitIndexOutOfRange \<and>
   applyTwoQubitGate
     \<lparr>numQubits = 2, dimension = 4, amplitudes = [Cnum 1 0, Cnum 0 0, Cnum 0 0, Cnum 0 0]\<rparr>
     QuantumGates_CNOT (- 1) 1 = Inl QubitIndexOutOfRange \<and>
   applyTwoQubitGate
     \<lparr>numQubits = 2, dimension = 4, amplitudes = [Cnum 1 0, Cnum 0 0, Cnum 0 0, Cnum 0 0]\<rparr>
     QuantumGates_CNOT 1 1 = Inl InvalidQubitPair \<and>
   measureQubit
     \<lparr>numQubits = 2, dimension = 4, amplitudes = [Cnum 1 0, Cnum 0 0, Cnum 0 0, Cnum 0 0]\<rparr>
     (- 1) (1 / 2) = Inl QubitIndexOutOfRange \<and>
   setAmplitude
     \<lparr>numQubits = 2, dimension = 4, amplitudes = [Cnum 1 0, Cnum 0 0, Cnum 0 0, Cnum 0 0]\<rparr>
     4 (Cnum 1 0) = Inl StateIndexOutOfRange \<and>
   QuantumRegister_new 0 = Inl InvalidQubitCount \<and>
   QuantumRegister_new 21 = Inl InvalidQubitCount"
proof -
  let ?r = "\<lparr>numQubits = 2, dimension = 4,
             amplitudes = [Cnum 1 0, Cnum 0 0, Cnum 0 0, Cnum 0 0]\<rparr>"
  have wf: "QuantumRegister_wf ?r" by (simp add: QuantumRegister_wf_def)
  have n1: "norm_sq ?r = 1" by (simp add: norm_sq_def sum_lessThan_4 weight_def)
  note C = C1_normalisation [OF wf]
  have 1: "\<exists>r. QuantumRegister_new 2 = Inr r \<and> norm_sq r = 1"
    using C[THEN conjunct1, rule_format, of 2] by auto
  have 2: "\<exists>reg'. applySingleQubitGate ?r QuantumGates_H 0 = Inr reg' \<and> norm_sq reg' = 1"
    using C[THEN conjunct2, THEN conjunct1, rule_format, of QuantumGates_H 0] is_unitary_H n1
    by auto
  have 3: "\<exists>reg'. applyTwoQubitGate ?r QuantumGates_CNOT 0 1 = Inr reg' \<and> norm_sq reg' = 1"
    using C[THEN conjunct2, THEN conjunct2, THEN conjunct1, rule_format, of QuantumGates_CNOT 0 1]
      is_unitary_CNOT n1
    by auto
  have w0: "outcome_weight ?r 0 0 = 1"
    by (simp add: outcome_weight_if sum_lessThan_4 bitval_def weight_def bit_0)
  obtain reg' where m: "measureQubit ?r 0 (1 / 2) = Inr (0, reg')"
    by (simp add: measureQubit_unfold w0 Let_def)
  have 4: "\<exists>r reg'. measureQubit ?r 0 (1 / 2) = Inr (r, reg') \<and> norm_sq reg' = 1"
    using C[THEN conjunct2, THEN conjunct2, THEN conjunct2, THEN conjunct1, rule_format,
        of 0 "1 / 2"] m w0
    by auto
  note C5 = C[THEN conjunct2, THEN conjunct2, THEN conjunct2, THEN conjunct2]
  have 5: "\<exists>reg'. setAmplitude ?r 1 (Cnum 1 0) = Inr reg' \<and> norm_sq reg' = 2"
    using C5[THEN conjunct1, rule_format, of 1 "Cnum 1 0"] n1
    by (auto simp add: weight_def)
  have 6: "applySingleQubitGate ?r QuantumGates_H 2 = Inl QubitIndexOutOfRange"
    using C5[THEN conjunct2, THEN conjunct1, rule_format, of 2 QuantumGates_H] by simp
  note F = C5[THEN conjunct2, THEN conjunct2]
  have 7: "applyTwoQubitGate ?r QuantumGates_CNOT 0 7 = Inl QubitIndexOutOfRange"
    using F[THEN conjunct1, rule_format, of 0 7 QuantumGates_CNOT] by simp
  have 8: "applyTwoQubitGate ?r QuantumGates_CNOT (- 1) 1 = Inl QubitIndexOutOfRange"
    using F[THEN conjunct1, rule_format, of "- 1" 1 QuantumGates_CNOT] by simp
  have 9: "applyTwoQubitGate ?r QuantumGates_CNOT 1 1 = Inl InvalidQubitPair"
    using F[THEN conjunct2, THEN conjunct1, rule_format, of 1 1 QuantumGates_CNOT] by simp
  note G = F[THEN conjunct2, THEN conjunct2]
  have 10: "measureQubit ?r (- 1) (1 / 2) = Inl QubitIndexOutOfRange"
    using G[THEN conjunct1, rule_format, of "- 1" "1 / 2"] by simp
  have 11: "setAmplitude ?r 4 (Cnum 1 0) = Inl StateIndexOutOfRange"
    using G[THEN conjunct2, THEN conjunct1, rule_format, of 4 "Cnum 1 0"] by simp
  have 12: "QuantumRegister_new 0 = Inl InvalidQubitCount"
    using G[THEN conjunct2, THEN conjunct2, rule_format, of 0] by simp
  have 13: "QuantumRegister_new 21 = Inl InvalidQubitCount"
    using G[THEN conjunct2, THEN conjunct2, rule_format, of 21] by simp
  from wf 1 2 3 4 5 6 7 8 9 10 11 12 13 show ?thesis by blast
qed

end
